theory Spec2Isabelle
  imports Main
begin

section \<open>Zotero.RecognizePDF: the recognition queue of recognizePDF.js\<close>

text \<open>
  The module keeps four variables (\<open>_listeners\<close>, \<open>_rows\<close>, \<open>_queue\<close>,
  \<open>_queueProcessing\<close>) and mutates them from synchronous functions and from the
  asynchronous worker \<open>_processQueue\<close>. The embedding passes the four variables as a
  record; what the module does to the outside world (calling a listener, calling
  \<open>_processItem\<close>, calling an external service) is recorded in logs, oldest entry first.
  JavaScript identifiers that start with an underscore lose it.
\<close>

subsection \<open>Values\<close>

type_synonym itemID = nat

text \<open>
  A row's message is a title taken from an item, the empty string, or a string of the
  localisation bundle, which is not part of the file: \<open>Zotero.getString(key)\<close> is kept
  as the key it was asked for.
\<close>

datatype msg = Text string | Localized string

definition getString :: "string \<Rightarrow> msg" where
  "getString key = Localized key"

text \<open>\<open>this.ROW_QUEUED = 1\<close> ... \<open>this.ROW_SUCCEEDED = 4\<close>; the source compares them with \<open>>\<close>.\<close>

datatype status = ROW_QUEUED | ROW_PROCESSING | ROW_FAILED | ROW_SUCCEEDED

fun status_num :: "status \<Rightarrow> nat" where
  "status_num ROW_QUEUED = 1"
| "status_num ROW_PROCESSING = 2"
| "status_num ROW_FAILED = 3"
| "status_num ROW_SUCCEEDED = 4"

record row =
  rid :: itemID
  status :: status
  fileName :: string
  message :: msg

text \<open>
  What \<open>canRecognize\<close>, \<open>_addItem\<close> and \<open>_processItem\<close> read of a \<open>Zotero.Item\<close>.
  \<open>attachmentContentType\<close> is \<open>None\<close> when the property is undefined;
  \<open>isTopLevelItem\<close> is the result of the method of that name, whose body is not in
  the file.
\<close>

record item =
  iid :: itemID
  title :: string
  attachmentContentType :: "string option"
  isTopLevelItem :: bool
  parentItemID :: "itemID option"
  libraryID :: nat
  getCollections :: "nat list"

text \<open>The argument a listener is called with.\<close>

datatype arg = Row row | Update itemID status msg | Deleted itemID | NoArg

text \<open>
  A listener is an opaque callback, named by a number; calling it appends the event
  name, the callback and its argument to \<open>calls\<close>. A callback is taken to return
  normally and not to call the module from inside.
\<close>

record state =
  listeners :: "string \<rightharpoonup> nat"
  rows :: "row list"
  queue :: "itemID list"
  queueProcessing :: bool
  calls :: "(string \<times> nat \<times> arg) list"

definition init :: state where
  "init = \<lparr>listeners = Map.empty, rows = [], queue = [], queueProcessing = False, calls = []\<rparr>"

subsection \<open>Listeners\<close>

definition addListener :: "string \<Rightarrow> nat \<Rightarrow> state \<Rightarrow> state" where
  "addListener name callback s = s\<lparr>listeners := (listeners s)(name \<mapsto> callback)\<rparr>"

definition removeListener :: "string \<Rightarrow> state \<Rightarrow> state" where
  "removeListener name s = s\<lparr>listeners := (listeners s)(name := None)\<rparr>"

text \<open>\<open>if (_listeners[name]) _listeners[name](a)\<close>\<close>

definition fire :: "string \<Rightarrow> arg \<Rightarrow> state \<Rightarrow> state" where
  "fire name a s =
     (case listeners s name of
        None \<Rightarrow> s
      | Some callback \<Rightarrow> s\<lparr>calls := calls s @ [(name, callback, a)]\<rparr>)"

subsection \<open>canRecognize\<close>

text \<open>
  \<open>a && b && c\<close> evaluates to its first falsy operand, or to the last operand: the
  result of \<open>canRecognize\<close> is a JavaScript value, not always a boolean.
\<close>

datatype jsval = Undefined | Str string | Bool bool

fun truthy :: "jsval \<Rightarrow> bool" where
  "truthy Undefined = False"
| "truthy (Str s) = (s \<noteq> [])"
| "truthy (Bool b) = b"

definition canRecognize :: "item \<Rightarrow> jsval" where
  "canRecognize item =
     (case attachmentContentType item of
        None \<Rightarrow> Undefined
      | Some t \<Rightarrow>
          if t = [] then Str t
          else if \<not> (t = ''application/pdf'') then Bool False
          else Bool (isTopLevelItem item))"

subsection \<open>The row table\<close>

definition getRows :: "state \<Rightarrow> row list" where
  "getRows s = rows s"

definition getTotal :: "state \<Rightarrow> nat" where
  "getTotal s = length (rows s)"

definition getProcessedTotal :: "state \<Rightarrow> nat" where
  "getProcessedTotal s =
     length (filter (\<lambda>row. status_num (status row) > status_num ROW_PROCESSING) (rows s))"

definition cancel :: "state \<Rightarrow> state" where
  "cancel s = fire ''empty'' NoArg (s\<lparr>queue := [], rows := []\<rparr>)"

text \<open>\<open>_updateRow\<close>: the first row with the id is changed in place.\<close>

fun updateRow_rows :: "itemID \<Rightarrow> status \<Rightarrow> msg \<Rightarrow> row list \<Rightarrow> row list" where
  "updateRow_rows itemID st m [] = []"
| "updateRow_rows itemID st m (row # rs) =
     (if rid row = itemID then row\<lparr>status := st, message := m\<rparr> # rs
      else row # updateRow_rows itemID st m rs)"

text \<open>
  Every message the module passes is a string, on which \<open>message || ''\<close> is the
  message itself.
\<close>

definition updateRow :: "itemID \<Rightarrow> status \<Rightarrow> msg \<Rightarrow> state \<Rightarrow> state" where
  "updateRow itemID st m s =
     (case find (\<lambda>row. rid row = itemID) (rows s) of
        None \<Rightarrow> s
      | Some row \<Rightarrow>
          fire ''rowupdated'' (Update (rid row) st m)
            (s\<lparr>rows := updateRow_rows itemID st m (rows s)\<rparr>))"

text \<open>\<open>_deleteRow\<close>: \<open>_rows.splice(i, 1)\<close> at the first index whose row has the id.\<close>

fun deleteRow_rows :: "itemID \<Rightarrow> row list \<Rightarrow> row list" where
  "deleteRow_rows itemID [] = []"
| "deleteRow_rows itemID (row # rs) =
     (if rid row = itemID then rs else row # deleteRow_rows itemID rs)"

definition deleteRow :: "itemID \<Rightarrow> state \<Rightarrow> state" where
  "deleteRow itemID s =
     (case find (\<lambda>row. rid row = itemID) (rows s) of
        None \<Rightarrow> s
      | Some row \<Rightarrow>
          fire ''rowdeleted'' (Deleted (rid row))
            (s\<lparr>rows := deleteRow_rows itemID (rows s)\<rparr>))"

text \<open>
  \<open>_addItem\<close>, lines 130 to 146: the new row goes to the front of \<open>_rows\<close>, the id to
  the front of \<open>_queue\<close> (\<open>unshift\<close>).
\<close>

definition addItem_insert :: "item \<Rightarrow> state \<Rightarrow> state" where
  "addItem_insert item s =
     (let row = \<lparr>rid = iid item, status = ROW_QUEUED, fileName = title item, message = Text []\<rparr>;
          s1 = s\<lparr>rows := row # rows s, queue := iid item # queue s\<rparr>;
          s2 = fire ''rowadded'' (Row row) s1
      in if length (rows s2) = 1 then fire ''nonempty'' NoArg s2 else s2)"

text \<open>
  \<open>_addItem\<close>, lines 120 to 128: the loop stops at the first row with the item's id;
  it deletes a row whose status is above \<open>ROW_PROCESSING\<close> and goes on, and returns
  \<open>null\<close> at any other.
\<close>

definition addItem :: "item \<Rightarrow> state \<Rightarrow> state" where
  "addItem item s =
     (case find (\<lambda>row. rid row = iid item) (rows s) of
        None \<Rightarrow> addItem_insert item s
      | Some row \<Rightarrow>
          if status_num (status row) > status_num ROW_PROCESSING
          then addItem_insert item (deleteRow (rid row) s)
          else s)"

subsection \<open>Errors\<close>

text \<open>
  \<open>new Zotero.Exception.Alert(name)\<close> and \<open>new Error(text)\<close>; \<open>TypeError\<close> is what
  JavaScript throws when the source iterates over \<open>undefined\<close>. The message of an
  alert is the localised string of its name (the class is not in the file).
\<close>

datatype error = Alert string | Error string | TypeError

fun err_message :: "error \<Rightarrow> msg" where
  "err_message (Alert name) = getString name"
| "err_message (Error text) = Text text"
| "err_message TypeError = Text ''TypeError''"

fun is_Alert :: "error \<Rightarrow> bool" where
  "is_Alert (Alert name) = True"
| "is_Alert e = False"

subsection \<open>Items made by recognition\<close>

record creator =
  firstName :: "string option"
  lastName :: "string option"
  creatorType :: string

text \<open>
  A \<open>Zotero.Item\<close> the resolver returns: \<open>zfields\<close> lists the \<open>setField\<close> calls in
  call order (a value is \<open>None\<close> when the source passes \<open>undefined\<close>);
  \<open>abstractNote\<close> is the JavaScript property of that name, which lines 384 and 410 read.
\<close>

record zitem =
  zid :: itemID
  itemType :: "string option"
  zlibraryID :: "nat option"
  abstractNote :: "string option"
  zfields :: "(string \<times> string option) list"
  creators :: "creator list"

definition setField :: "string \<Rightarrow> string option \<Rightarrow> zitem \<Rightarrow> zitem" where
  "setField name v it = it\<lparr>zfields := zfields it @ [(name, v)]\<rparr>"

definition getField :: "string \<Rightarrow> zitem \<Rightarrow> string" where
  "getField name it =
     (case map_of (rev (zfields it)) name of Some (Some v) \<Rightarrow> v | _ \<Rightarrow> [])"

definition setCreators :: "creator list \<Rightarrow> zitem \<Rightarrow> zitem" where
  "setCreators cs it = it\<lparr>creators := cs\<rparr>"

text \<open>\<open>new Zotero.Item(type)\<close>, and \<open>new Zotero.Item\<close> for \<open>None\<close>.\<close>

definition new_Item :: "string option \<Rightarrow> zitem" where
  "new_Item type =
     \<lparr>zid = 0, itemType = type, zlibraryID = None, abstractNote = None, zfields = [], creators = []\<rparr>"

subsection \<open>What the extractor and the recognition service return\<close>

text \<open>A page of the extractor's JSON is an array whose third element holds the text.\<close>

type_synonym page = "nat \<times> nat \<times> string list"

definition page2 :: "page \<Rightarrow> string list" where
  "page2 p = snd (snd p)"

record json =
  pages :: "page list"

record author =
  author_firstName :: "string option"
  author_lastName :: "string option"

text \<open>
  The response of the service: a property is \<open>None\<close> when it is undefined. Property
  names are case sensitive, so \<open>res.ISSN\<close> and \<open>res.issn\<close> are two properties.
\<close>

record res =
  res_doi :: "string option"
  res_isbn :: "string option"
  res_title :: "string option"
  res_type :: "string option"
  res_authors :: "author list option"
  res_abstract :: "string option"
  res_year :: "string option"
  res_pages :: "string option"
  res_volume :: "string option"
  res_url :: "string option"
  res_issue :: "string option"
  res_ISSN :: "string option"
  res_issn :: "string option"
  res_container :: "string option"
  res_publisher :: "string option"

text \<open>\<open>if (v)\<close> on a property that is undefined or a string.\<close>

fun given :: "string option \<Rightarrow> bool" where
  "given None = False"
| "given (Some v) = (v \<noteq> [])"

text \<open>
  What the world outside the file does during one run of \<open>_processItem\<close>:
  \<^item> \<open>getAsync\<close>: \<open>Zotero.Items.getAsync\<close>;
  \<^item> \<open>extracted\<close>: the parsed output of the extractor, \<open>None\<close> when running it,
    reading its output or parsing it throws;
  \<^item> \<open>response\<close>: the parsed body of the service's answer (\<open>Some None\<close> when it is
    falsy), \<open>None\<close> when the request or the parsing throws;
  \<^item> \<open>translateDOI\<close>, \<open>translateISBN\<close>: the items \<open>translate()\<close> resolves with,
    \<open>None\<close> when it throws;
  \<^item> \<open>saveTx_ok\<close>, \<open>saveTx_id\<close>: whether saving the new item succeeds, and the id
    it gets;
  \<^item> \<open>addItem_throws\<close>, \<open>save_throws\<close>: whether \<open>collection.addItem\<close> (per
    collection) and \<open>item.save\<close> throw inside the transaction.
\<close>

record env =
  getAsync :: "itemID \<rightharpoonup> item"
  extracted :: "json option"
  response :: "res option option"
  translateDOI :: "zitem list option"
  translateISBN :: "zitem list option"
  saveTx_ok :: bool
  saveTx_id :: itemID
  addItem_throws :: "nat \<Rightarrow> bool"
  save_throws :: bool

text \<open>Calls that leave the file, in call order.\<close>

datatype effect =
    Debug string
  | Exec nat
  | Request json
  | Translate string "string option"
  | New_Item "string option"
  | SaveTx zitem

definition MAX_PAGES :: nat where
  "MAX_PAGES = 5"

definition OFFLINE_RECHECK_DELAY :: nat where
  "OFFLINE_RECHECK_DELAY = 60 * 1000"

subsection \<open>extractJSON, _query, _promiseTranslate\<close>

text \<open>
  Lines 276 to 299: the extractor is run on at most \<open>n\<close> pages; whatever is thrown
  while running it, reading its output or parsing it becomes the alert
  \<open>recognizePDF.couldNotRead\<close>.
\<close>

definition extractJSON :: "env \<Rightarrow> nat \<Rightarrow> (error + json) \<times> effect list" where
  "extractJSON env n =
     (case extracted env of
        None \<Rightarrow> (Inl (Alert ''recognizePDF.couldNotRead''), [Exec n])
      | Some j \<Rightarrow> (Inr j, [Exec n]))"

text \<open>
  Lines 325 to 349: one POST request; whatever is thrown by the request or by parsing
  the answer becomes \<open>Error("Request error")\<close>.
\<close>

definition query :: "env \<Rightarrow> json \<Rightarrow> (error + res option) \<times> effect list" where
  "query env j =
     (case response env of
        None \<Rightarrow> (Inl (Error ''Request error''), [Request j])
      | Some r \<Rightarrow> (Inr r, [Request j]))"

text \<open>
  Lines 315 to 322: the first item \<open>translate()\<close> resolves with, and
  \<open>Error('No items found')\<close> when there is none.
\<close>

definition promiseTranslate :: "zitem list option \<Rightarrow> error + zitem" where
  "promiseTranslate translated =
     (case translated of
        None \<Rightarrow> Inl (Error ''translate'')
      | Some [] \<Rightarrow> Inl (Error ''No items found'')
      | Some (newItem # others) \<Rightarrow> Inr newItem)"

subsection \<open>_recognize: the three branches of the resolver\<close>

fun err_string :: "error \<Rightarrow> string" where
  "err_string (Alert name) = name"
| "err_string (Error text) = ''Error: '' @ text"
| "err_string TypeError = ''TypeError''"

text \<open>\<open>if (!newItem.abstractNote && res.abstract) newItem.setField('abstractNote', res.abstract)\<close>\<close>

definition backfill :: "res \<Rightarrow> zitem \<Rightarrow> zitem" where
  "backfill r newItem =
     (if \<not> given (abstractNote newItem) \<and> given (res_abstract r)
      then setField ''abstractNote'' (res_abstract r) newItem
      else newItem)"

text \<open>The item once \<open>saveTx\<close> has run: a save that succeeds gives a new item its id.\<close>

definition saveTx :: "env \<Rightarrow> zitem \<Rightarrow> zitem" where
  "saveTx env newItem =
     (if saveTx_ok env \<and> zid newItem = 0 then newItem\<lparr>zid := saveTx_id env\<rparr> else newItem)"

text \<open>
  Lines 378 to 392. \<open>newItem.saveTx()\<close> is not awaited here: a save that fails
  rejects a promise nobody holds, and the item is returned all the same.
\<close>

definition doi_branch :: "env \<Rightarrow> res \<Rightarrow> zitem option \<times> effect list" where
  "doi_branch env r =
     (case promiseTranslate (translateDOI env) of
        Inr newItem \<Rightarrow>
          (Some (saveTx env (backfill r newItem)),
           [Debug ''RecognizePDF: Getting metadata by DOI'',
            Translate ''journalArticle'' (res_doi r),
            SaveTx (backfill r newItem)])
      | Inl e \<Rightarrow>
          (None,
           [Debug ''RecognizePDF: Getting metadata by DOI'',
            Translate ''journalArticle'' (res_doi r),
            Debug (''RecognizePDF: '' @ err_string e)]))"

text \<open>\<open>newItem.fromJSON(translatedItems[0])\<close>\<close>

definition fromJSON :: "zitem \<Rightarrow> zitem \<Rightarrow> zitem" where
  "fromJSON j newItem =
     newItem\<lparr>itemType := itemType j, zfields := zfields j, creators := creators j\<rparr>"

text \<open>Lines 396 to 419; \<open>saveTx\<close> is not awaited here either.\<close>

definition isbn_branch :: "env \<Rightarrow> nat \<Rightarrow> res \<Rightarrow> zitem option \<times> effect list" where
  "isbn_branch env lib r =
     (case translateISBN env of
        None \<Rightarrow>
          (None,
           [Debug ''RecognizePDF: Getting metadata by ISBN'',
            Translate ''book'' (res_isbn r),
            Debug (''RecognizePDF: '' @ err_string (Error ''translate''))])
      | Some [] \<Rightarrow>
          (None,
           [Debug ''RecognizePDF: Getting metadata by ISBN'',
            Translate ''book'' (res_isbn r),
            Debug ''RecognizePDF: Translated items:''])
      | Some (first # others) \<Rightarrow>
          (let newItem = backfill r ((fromJSON first (new_Item None))\<lparr>zlibraryID := Some lib\<rparr>)
           in (Some (saveTx env newItem),
               [Debug ''RecognizePDF: Getting metadata by ISBN'',
                Translate ''book'' (res_isbn r),
                Debug ''RecognizePDF: Translated items:'',
                New_Item None,
                SaveTx newItem])))"

text \<open>\<open>if (c) newItem.setField(name, v)\<close>\<close>

definition setField_if :: "string option \<Rightarrow> string \<Rightarrow> string option \<Rightarrow> zitem \<Rightarrow> zitem" where
  "setField_if c name v it = (if given c then setField name v it else it)"

definition author_creator :: "author \<Rightarrow> creator" where
  "author_creator a =
     \<lparr>firstName = author_firstName a, lastName = author_lastName a, creatorType = ''author''\<rparr>"

text \<open>Lines 424 to 429.\<close>

definition title_type :: "res \<Rightarrow> string" where
  "title_type r = (if res_type r = Some ''book-chapter'' then ''bookSection'' else ''journalArticle'')"

text \<open>
  Lines 430 to 460, once \<open>res.authors\<close> has been iterated. Line 452 tests
  \<open>res.ISSN\<close> and passes \<open>res.issn\<close>.
\<close>

definition title_item :: "res \<Rightarrow> author list \<Rightarrow> zitem" where
  "title_item r authors =
     (let type = title_type r;
          i1 = setField ''title'' (res_title r) (new_Item (Some type));
          i2 = setCreators (map author_creator authors) i1;
          i3 = setField_if (res_abstract r) ''abstractNote'' (res_abstract r) i2;
          i4 = setField_if (res_year r) ''date'' (res_year r) i3;
          i5 = setField_if (res_pages r) ''pages'' (res_pages r) i4;
          i6 = setField_if (res_volume r) ''volume'' (res_volume r) i5;
          i7 = setField_if (res_url r) ''url'' (res_url r) i6;
          i8 = (if type = ''journalArticle''
                then setField_if (res_container r) ''publicationTitle'' (res_container r)
                       (setField_if (res_ISSN r) ''issn'' (res_issn r)
                         (setField_if (res_issue r) ''issue'' (res_issue r) i7))
                else if type = ''bookSection''
                then setField_if (res_publisher r) ''publisher'' (res_publisher r)
                       (setField_if (res_container r) ''bookTitle'' (res_container r) i7)
                else i7)
      in setField ''libraryCatalog'' (Some ''Zotero'') i8)"

text \<open>
  Lines 422 to 464. \<open>for (let author of res.authors)\<close> throws when the response has
  no \<open>authors\<close>; \<open>saveTx\<close> is awaited, so a save that fails throws here.
\<close>

definition title_branch :: "env \<Rightarrow> res \<Rightarrow> (error + zitem) \<times> effect list" where
  "title_branch env r =
     (case res_authors r of
        None \<Rightarrow> (Inl TypeError, [New_Item (Some (title_type r))])
      | Some authors \<Rightarrow>
          (if saveTx_ok env
           then (Inr (saveTx env (title_item r authors)),
                 [New_Item (Some (title_type r)), SaveTx (title_item r authors)])
           else (Inl (Error ''saveTx''),
                 [New_Item (Some (title_type r)), SaveTx (title_item r authors)])))"

text \<open>
  Lines 377 to 466: three \<open>if\<close> statements in a row. A branch that returns ends
  the function; a branch whose lookup throws, or finds nothing, falls out of its
  \<open>try\<close> and the next \<open>if\<close> is evaluated.
\<close>

definition resolve :: "env \<Rightarrow> nat \<Rightarrow> res \<Rightarrow> (error + zitem option) \<times> effect list" where
  "resolve env lib r =
     (case (if given (res_doi r) then doi_branch env r else (None, [])) of
        (Some newItem, fx1) \<Rightarrow> (Inr (Some newItem), fx1)
      | (None, fx1) \<Rightarrow>
          (case (if given (res_isbn r) then isbn_branch env lib r else (None, [])) of
             (Some newItem, fx2) \<Rightarrow> (Inr (Some newItem), fx1 @ fx2)
           | (None, fx2) \<Rightarrow>
               (if given (res_title r)
                then (case title_branch env r of
                        (Inl e, fx3) \<Rightarrow> (Inl e, fx1 @ fx2 @ fx3)
                      | (Inr newItem, fx3) \<Rightarrow> (Inr (Some newItem), fx1 @ fx2 @ fx3))
                else (Inr None, fx1 @ fx2))))"

text \<open>Lines 360 to 366: the number of pages whose \<open>page[2]\<close> is not empty.\<close>

definition containingTextPages :: "json \<Rightarrow> nat" where
  "containingTextPages j = length (filter (\<lambda>p. length (page2 p) \<noteq> 0) (pages j))"

text \<open>
  Lines 357 to 375, then the resolver. What \<open>item.getFilePath()\<close> answers only
  reaches the extractor, whose outcome is \<open>extracted\<close>.
\<close>

definition recognize :: "env \<Rightarrow> item \<Rightarrow> (error + zitem option) \<times> effect list" where
  "recognize env item =
     (case extractJSON env MAX_PAGES of
        (Inl e, fx0) \<Rightarrow> (Inl e, fx0)
      | (Inr j, fx0) \<Rightarrow>
          (if containingTextPages j = 0 then (Inl (Alert ''recognizePDF.noOCR''), fx0)
           else (case query env j of
                   (Inl e, fx1) \<Rightarrow> (Inl e, fx0 @ fx1)
                 | (Inr None, fx1) \<Rightarrow> (Inr None, fx0 @ fx1)
                 | (Inr (Some r), fx1) \<Rightarrow>
                     (case resolve env (libraryID item) r of
                        (result, fx2) \<Rightarrow> (result, fx0 @ fx1 @ fx2)))))"

subsection \<open>_processItem and the transaction\<close>

text \<open>
  What the database holds of collections and parents: the items of each collection,
  and each item's parent.
\<close>

record store =
  collectionItems :: "nat \<Rightarrow> itemID list"
  parentID :: "itemID \<rightharpoonup> itemID"

text \<open>Lines 254 to 257: \<open>collection.addItem(newItem.id)\<close> for each collection, in order.\<close>

fun addItems :: "(nat \<Rightarrow> bool) \<Rightarrow> nat list \<Rightarrow> itemID \<Rightarrow> store \<Rightarrow> error + store" where
  "addItems throws [] newID st = Inr st"
| "addItems throws (c # cs) newID st =
     (if throws c then Inl (Error ''addItem'')
      else addItems throws cs newID
             (st\<lparr>collectionItems := (collectionItems st)(c := collectionItems st c @ [newID])\<rparr>))"

text \<open>Lines 254 to 261, the function passed to \<open>executeTransaction\<close>.\<close>

definition transaction_body :: "env \<Rightarrow> item \<Rightarrow> zitem \<Rightarrow> store \<Rightarrow> error + store" where
  "transaction_body env item newItem st =
     (case addItems (addItem_throws env) (getCollections item) (zid newItem) st of
        Inl e \<Rightarrow> Inl e
      | Inr st1 \<Rightarrow>
          if save_throws env then Inl (Error ''save'')
          else Inr (st1\<lparr>parentID := (parentID st1)(iid item \<mapsto> zid newItem)\<rparr>))"

text \<open>
  Modelled from the spec: \<open>Zotero.DB.executeTransaction\<close>, which is not in the file.
  The spec's persistence contract is "a transactional save that either fully commits
  or fully rolls back a batch of related mutations": the writes of the function it is
  given are all kept when the function returns, and all dropped when it throws, and
  then the error is thrown on.
\<close>

definition executeTransaction :: "(store \<Rightarrow> error + store) \<Rightarrow> store \<Rightarrow> (error + unit) \<times> store" where
  "executeTransaction f st =
     (case f st of
        Inl e \<Rightarrow> (Inl e, st)
      | Inr st' \<Rightarrow> (Inr (), st'))"

text \<open>\<open>item.parentItemID\<close> is an id or \<open>false\<close>; \<open>if (x)\<close> on an id is \<open>x \<noteq> 0\<close>.\<close>

fun id_given :: "itemID option \<Rightarrow> bool" where
  "id_given None = False"
| "id_given (Some i) = (i \<noteq> 0)"

definition processItem ::
  "env \<Rightarrow> itemID \<Rightarrow> store \<Rightarrow> ((error + zitem option) \<times> effect list) \<times> store" where
  "processItem env itemID st =
     (case getAsync env itemID of
        None \<Rightarrow> ((Inl (Alert ''recognizePDF.fileNotFound''), []), st)
      | Some item \<Rightarrow>
          if id_given (parentItemID item) then ((Inl (Alert ''recognizePDF.fileNotFound''), []), st)
          else (case recognize env item of
                  (Inl e, fx) \<Rightarrow> ((Inl e, fx), st)
                | (Inr None, fx) \<Rightarrow> ((Inr None, fx), st)
                | (Inr (Some newItem), fx) \<Rightarrow>
                    (case executeTransaction (transaction_body env item newItem) st of
                       (Inl e, st') \<Rightarrow> ((Inl e, fx), st')
                     | (Inr u, st') \<Rightarrow> ((Inr (Some newItem), fx), st'))))"

subsection \<open>_processQueue\<close>

text \<open>
  An activation of the asynchronous function \<open>_processQueue\<close> is at one of its three
  \<open>await\<close>s, or has returned: before the schema promise (line 196), in the delay of
  line 203 (with the milliseconds it asked for), or in \<open>_processItem\<close> of line 213
  (with the id it passed).
\<close>

datatype pc = AwaitSchema | Sleeping nat | AwaitItem itemID | Returned

text \<open>
  The module's variables, every activation of \<open>_processQueue\<close> started so far, and
  the ids \<open>_processItem\<close> was called with, in call order.
\<close>

record system =
  vars :: state
  workers :: "pc list"
  started :: "itemID list"

definition start :: system where
  "start = \<lparr>vars = init, workers = [], started = []\<rparr>"

text \<open>
  Lines 201 to 213 and 235: from the head of \<open>while (1)\<close> to the next \<open>await\<close> or
  to the return. \<open>offline\<close> is what \<open>Zotero.HTTP.browserIsOffline()\<close> answers.
  \<open>_queue.shift()\<close> takes the first id; \<open>!itemID\<close> holds when the queue was empty and
  when the id is 0.
\<close>

definition loop :: "bool \<Rightarrow> nat \<Rightarrow> system \<Rightarrow> system" where
  "loop offline k sys =
     (if offline then sys\<lparr>workers := (workers sys)[k := Sleeping OFFLINE_RECHECK_DELAY]\<rparr>
      else (case queue (vars sys) of
              [] \<Rightarrow>
                sys\<lparr>vars := (vars sys)\<lparr>queueProcessing := False\<rparr>,
                    workers := (workers sys)[k := Returned]\<rparr>
            | itemID # rest \<Rightarrow>
                if itemID = 0
                then sys\<lparr>vars := (vars sys)\<lparr>queue := rest, queueProcessing := False\<rparr>,
                         workers := (workers sys)[k := Returned]\<rparr>
                else sys\<lparr>vars := updateRow itemID ROW_PROCESSING (getString ''recognizePDF.processing'')
                                    ((vars sys)\<lparr>queue := rest\<rparr>),
                         workers := (workers sys)[k := AwaitItem itemID],
                         started := started sys @ [itemID]\<rparr>))"

text \<open>
  Lines 215 to 231: what the loop does with the outcome of \<open>_processItem\<close>, a new
  item, \<open>null\<close> or an error thrown. (\<open>Zotero.logError\<close> writes to the log and is left
  out.)
\<close>

definition item_done :: "itemID \<Rightarrow> error + zitem option \<Rightarrow> state \<Rightarrow> state" where
  "item_done itemID outcome s =
     (case outcome of
        Inr (Some newItem) \<Rightarrow> updateRow itemID ROW_SUCCEEDED (Text (getField ''title'' newItem)) s
      | Inr None \<Rightarrow> updateRow itemID ROW_FAILED (getString ''recognizePDF.noMatches'') s
      | Inl e \<Rightarrow>
          updateRow itemID ROW_FAILED
            (if is_Alert e then err_message e else getString ''recognizePDF.error'') s)"

text \<open>
  JavaScript runs one piece of code at a time, from a call or the end of an \<open>await\<close>
  to the next \<open>await\<close> or return. An action is one such piece:
  \<^item> a call of a public function (\<open>recognizeItems\<close> adds the items and calls
    \<open>_processQueue\<close>, which stops at once at its first \<open>await\<close>);
  \<^item> the end of an \<open>await\<close> of activation \<open>k\<close>: the schema promise resolves, the
    delay is over, or \<open>_processItem\<close> settles with an outcome. The boolean is the
    answer of \<open>browserIsOffline()\<close> if the piece reaches line 202.
  An action that does not fit the activation's place is not possible (\<open>None\<close>).
\<close>

datatype action =
    RecognizeItems "item list"
  | Cancel
  | AddListener string nat
  | RemoveListener string
  | SchemaReady nat bool
  | DelayElapsed nat bool
  | ItemDone nat "error + zitem option" bool

fun step :: "action \<Rightarrow> system \<Rightarrow> system option" where
  "step (RecognizeItems items) sys =
     Some (sys\<lparr>vars := fold addItem items (vars sys), workers := workers sys @ [AwaitSchema]\<rparr>)"
| "step Cancel sys = Some (sys\<lparr>vars := cancel (vars sys)\<rparr>)"
| "step (AddListener name callback) sys = Some (sys\<lparr>vars := addListener name callback (vars sys)\<rparr>)"
| "step (RemoveListener name) sys = Some (sys\<lparr>vars := removeListener name (vars sys)\<rparr>)"
| "step (SchemaReady k offline) sys =
     (if k < length (workers sys) then
        (case workers sys ! k of
           AwaitSchema \<Rightarrow>
             if queueProcessing (vars sys) then Some (sys\<lparr>workers := (workers sys)[k := Returned]\<rparr>)
             else Some (loop offline k (sys\<lparr>vars := (vars sys)\<lparr>queueProcessing := True\<rparr>\<rparr>))
         | _ \<Rightarrow> None)
      else None)"
| "step (DelayElapsed k offline) sys =
     (if k < length (workers sys) then
        (case workers sys ! k of
           Sleeping ms \<Rightarrow> Some (loop offline k sys)
         | _ \<Rightarrow> None)
      else None)"
| "step (ItemDone k outcome offline) sys =
     (if k < length (workers sys) then
        (case workers sys ! k of
           AwaitItem itemID \<Rightarrow> Some (loop offline k (sys\<lparr>vars := item_done itemID outcome (vars sys)\<rparr>))
         | _ \<Rightarrow> None)
      else None)"

fun run :: "action list \<Rightarrow> system \<Rightarrow> system option" where
  "run [] sys = Some sys"
| "run (a # as) sys = (case step a sys of None \<Rightarrow> None | Some sys' \<Rightarrow> run as sys')"

text \<open>An activation that is inside \<open>while (1)\<close>.\<close>

fun in_loop :: "pc \<Rightarrow> bool" where
  "in_loop (Sleeping ms) = True"
| "in_loop (AwaitItem itemID) = True"
| "in_loop p = False"

text \<open>Item ids are keys of the database, which start at 1.\<close>

fun positive_ids :: "action \<Rightarrow> bool" where
  "positive_ids (RecognizeItems items) = list_all (\<lambda>item. 0 < iid item) items"
| "positive_ids a = True"

subsection \<open>Notions the properties are stated with\<close>

text \<open>The listener calls that \<open>fire\<close> adds: one if a listener has the name, none otherwise.\<close>

definition fired :: "string \<Rightarrow> arg \<Rightarrow> state \<Rightarrow> (string \<times> nat \<times> arg) list" where
  "fired name a s =
     (case listeners s name of
        None \<Rightarrow> []
      | Some callback \<Rightarrow> [(name, callback, a)])"

text \<open>The row of lines 130 to 135.\<close>

definition new_row :: "item \<Rightarrow> row" where
  "new_row item = \<lparr>rid = iid item, status = ROW_QUEUED, fileName = title item, message = Text []\<rparr>"

text \<open>
  The flag \<open>_queueProcessing\<close> is set exactly when one activation is inside the loop,
  and then no other is.
\<close>

definition single_flight :: "system \<Rightarrow> bool" where
  "single_flight sys =
     (length (filter in_loop (workers sys)) = (if queueProcessing (vars sys) then 1 else 0))"

text \<open>A call that goes over the network: the recognition service, or a translator's lookup.\<close>

fun network :: "effect \<Rightarrow> bool" where
  "network (Request j) = True"
| "network (Translate t i) = True"
| "network fx = False"

text \<open>
  Which branches of the resolver ran, read from the calls they make: the DOI and the
  ISBN branch each begin with a debug line of their own, and only the title branch
  calls \<open>new Zotero.Item\<close> with a type. A lookup yields when it resolves with at
  least one item.
\<close>

fun typed_New_Item :: "effect \<Rightarrow> bool" where
  "typed_New_Item (New_Item (Some t)) = True"
| "typed_New_Item fx = False"

definition ran_doi :: "effect list \<Rightarrow> bool" where
  "ran_doi fx = (Debug ''RecognizePDF: Getting metadata by DOI'' \<in> set fx)"

definition ran_isbn :: "effect list \<Rightarrow> bool" where
  "ran_isbn fx = (Debug ''RecognizePDF: Getting metadata by ISBN'' \<in> set fx)"

definition ran_title :: "effect list \<Rightarrow> bool" where
  "ran_title fx = list_ex typed_New_Item fx"

fun yields :: "zitem list option \<Rightarrow> bool" where
  "yields None = False"
| "yields (Some []) = False"
| "yields (Some (x # xs)) = True"

subsection \<open>Example inputs\<close>

text \<open>Two attachments: \<open>itemA\<close> has id 1 and is in collection 7, \<open>itemB\<close> has id 2.\<close>

definition itemA :: item where
  "itemA = \<lparr>iid = 1, title = ''a.pdf'', attachmentContentType = Some ''application/pdf'',
             isTopLevelItem = True, parentItemID = None, libraryID = 1, getCollections = [7]\<rparr>"

definition itemB :: item where
  "itemB = \<lparr>iid = 2, title = ''b.pdf'', attachmentContentType = Some ''application/pdf'',
             isTopLevelItem = True, parentItemID = None, libraryID = 1, getCollections = []\<rparr>"

text \<open>
  Both are added with listeners for \<open>rowdeleted\<close> and \<open>rowadded\<close> in place; the loop
  takes item 2, which ends with no match, and then item 1, which is in progress.
\<close>

definition C3_actions :: "action list" where
  "C3_actions =
     [AddListener ''rowdeleted'' 1, AddListener ''rowadded'' 2,
      RecognizeItems [itemA, itemB], SchemaReady 0 False, ItemDone 0 (Inr None) False]"

text \<open>
  A second call of \<open>recognizeItems\<close> while the loop of the first is running, and the
  state after it: item 2 is in progress, item 1 is queued, and the activation of the
  second call is still at its first \<open>await\<close>.
\<close>

definition second_call :: "action list" where
  "second_call = [RecognizeItems [itemA], RecognizeItems [itemB], SchemaReady 0 False]"

definition second_call_state :: system where
  "second_call_state =
     \<lparr>vars = \<lparr>listeners = Map.empty,
               rows = [\<lparr>rid = 2, status = ROW_PROCESSING, fileName = ''b.pdf'',
                        message = Localized ''recognizePDF.processing''\<rparr>,
                       \<lparr>rid = 1, status = ROW_QUEUED, fileName = ''a.pdf'', message = Text []\<rparr>],
               queue = [1], queueProcessing = True, calls = []\<rparr>,
      workers = [AwaitItem 2, AwaitSchema], started = [2]\<rparr>"

text \<open>A run that leaves one item in progress and the queue empty, and the state after it.\<close>

definition C2_last :: "action list" where
  "C2_last = [RecognizeItems [itemA], SchemaReady 0 False]"

definition C2_last_state :: system where
  "C2_last_state =
     \<lparr>vars = \<lparr>listeners = Map.empty,
               rows = [\<lparr>rid = 1, status = ROW_PROCESSING, fileName = ''a.pdf'',
                        message = Localized ''recognizePDF.processing''\<rparr>],
               queue = [], queueProcessing = True, calls = []\<rparr>,
      workers = [AwaitItem 1], started = [1]\<rparr>"

text \<open>
  Two items are added while the network is down: the state in which the worker sleeps
  with both ids queued.
\<close>

definition C6_actions :: "action list" where
  "C6_actions = [RecognizeItems [itemA, itemB], SchemaReady 0 True]"

definition C6_state :: system where
  "C6_state =
     \<lparr>vars = \<lparr>listeners = Map.empty,
               rows = [\<lparr>rid = 2, status = ROW_QUEUED, fileName = ''b.pdf'', message = Text []\<rparr>,
                       \<lparr>rid = 1, status = ROW_QUEUED, fileName = ''a.pdf'', message = Text []\<rparr>],
               queue = [2, 1], queueProcessing = True, calls = []\<rparr>,
      workers = [Sleeping 60000], started = []\<rparr>"

text \<open>
  A response with no property set; a response with a DOI, an ISBN, a title and an
  empty list of authors; and one with a title, no authors and an ISSN.
\<close>

definition no_res :: res where
  "no_res = \<lparr>res_doi = None, res_isbn = None, res_title = None, res_type = None,
              res_authors = None, res_abstract = None, res_year = None, res_pages = None,
              res_volume = None, res_url = None, res_issue = None, res_ISSN = None,
              res_issn = None, res_container = None, res_publisher = None\<rparr>"

definition res_all :: res where
  "res_all = no_res\<lparr>res_doi := Some ''10.1000/182'', res_isbn := Some ''9780306406157'',
                     res_title := Some ''Title of the paper'', res_authors := Some []\<rparr>"

definition C9_res :: res where
  "C9_res = no_res\<lparr>res_title := Some ''Title of the paper'', res_authors := Some [],
                    res_ISSN := Some ''1234-5679''\<rparr>"

text \<open>
  An outside world in which item 1 is \<open>itemA\<close>, its first page has text, the service
  answers \<open>res_all\<close>, the DOI lookup throws, the ISBN lookup finds nothing, and every
  save succeeds.
\<close>

definition envA :: env where
  "envA = \<lparr>getAsync = [1 \<mapsto> itemA],
            extracted = Some \<lparr>pages = [(612, 792, [''Title of the paper'']), (612, 792, [])]\<rparr>,
            response = Some (Some res_all),
            translateDOI = None, translateISBN = Some [],
            saveTx_ok = True, saveTx_id = 9,
            addItem_throws = (\<lambda>c. False), save_throws = False\<rparr>"

text \<open>A database in which collection 7 holds item 1.\<close>

definition store0 :: store where
  "store0 = \<lparr>collectionItems = (\<lambda>c. if c = 7 then [1] else []), parentID = Map.empty\<rparr>"

section \<open>Properties\<close>

subsection \<open>Rows, queue and listener calls\<close>

lemma rows_fire [simp]: "rows (fire name a s) = rows s"
  by (simp add: fire_def split: option.splits)

lemma queue_fire [simp]: "queue (fire name a s) = queue s"
  by (simp add: fire_def split: option.splits)

lemma queueProcessing_fire [simp]: "queueProcessing (fire name a s) = queueProcessing s"
  by (simp add: fire_def split: option.splits)

lemma listeners_fire [simp]: "listeners (fire name a s) = listeners s"
  by (simp add: fire_def split: option.splits)

lemma calls_fire [simp]: "calls (fire name a s) = calls s @ fired name a s"
  by (simp add: fire_def fired_def split: option.splits)

lemma fired_rows_queue [simp]:
  "fired name a (s\<lparr>rows := rs\<rparr>) = fired name a s"
  "fired name a (s\<lparr>queue := q\<rparr>) = fired name a s"
  "fired name a (s\<lparr>calls := c\<rparr>) = fired name a s"
  "fired name a (fire name' a' s) = fired name a s"
  by (simp_all add: fired_def)

lemma rid_updateRow_rows [simp]: "map rid (updateRow_rows i st m rs) = map rid rs"
  by (induction rs) auto

lemma rid_deleteRow_rows_subset: "set (map rid (deleteRow_rows i rs)) \<subseteq> set (map rid rs)"
  by (induction rs) auto

lemma distinct_deleteRow_rows:
  "distinct (map rid rs) \<Longrightarrow> distinct (map rid (deleteRow_rows i rs))"
  using rid_deleteRow_rows_subset by (induction rs) fastforce+

lemma deleteRow_rows_gone:
  "distinct (map rid rs) \<Longrightarrow> i \<notin> rid ` set (deleteRow_rows i rs)"
  by (induction rs) auto

lemma length_deleteRow_rows:
  "i \<in> set (map rid rs) \<Longrightarrow> Suc (length (deleteRow_rows i rs)) = length rs"
  by (induction rs) auto

lemma find_rid_None: "find (\<lambda>row. rid row = i) rs = None \<longleftrightarrow> i \<notin> set (map rid rs)"
  by (induction rs) auto

lemma find_rid_Some: "find (\<lambda>row. rid row = i) rs = Some row \<Longrightarrow> rid row = i \<and> row \<in> set rs"
  by (induction rs) (auto split: if_splits)

lemma find_rid_distinct:
  "distinct (map rid rs) \<Longrightarrow> row \<in> set rs \<Longrightarrow> find (\<lambda>r. rid r = rid row) rs = Some row"
  by (induction rs) (auto simp: rev_image_eqI)

lemma rid_rows_updateRow [simp]: "map rid (rows (updateRow i st m s)) = map rid (rows s)"
  by (simp add: updateRow_def split: option.splits)

lemma queue_updateRow [simp]: "queue (updateRow i st m s) = queue s"
  by (simp add: updateRow_def split: option.splits)

lemma queueProcessing_updateRow [simp]: "queueProcessing (updateRow i st m s) = queueProcessing s"
  by (simp add: updateRow_def split: option.splits)

lemma rid_rows_item_done [simp]: "map rid (rows (item_done i outcome s)) = map rid (rows s)"
  by (simp add: item_done_def split: sum.splits option.splits)

lemma queue_item_done [simp]: "queue (item_done i outcome s) = queue s"
  by (simp add: item_done_def split: sum.splits option.splits)

lemma queueProcessing_item_done [simp]: "queueProcessing (item_done i outcome s) = queueProcessing s"
  by (simp add: item_done_def split: sum.splits option.splits)

lemma deleteRow_rows_absent: "i \<notin> set (map rid rs) \<Longrightarrow> deleteRow_rows i rs = rs"
  by (induction rs) auto

lemma rows_deleteRow: "rows (deleteRow i s) = deleteRow_rows i (rows s)"
proof (cases "find (\<lambda>row. rid row = i) (rows s)")
  case None
  then have "i \<notin> set (map rid (rows s))" by (simp add: find_rid_None)
  then have "deleteRow_rows i (rows s) = rows s" by (rule deleteRow_rows_absent)
  with None show ?thesis by (simp add: deleteRow_def)
next
  case (Some row)
  then show ?thesis by (simp add: deleteRow_def)
qed

lemma rows_addItem_insert:
  "rows (addItem_insert item s) =
     \<lparr>rid = iid item, status = ROW_QUEUED, fileName = title item, message = Text []\<rparr> # rows s"
  by (simp add: addItem_insert_def Let_def)

lemma queue_addItem_insert: "queue (addItem_insert item s) = iid item # queue s"
  by (simp add: addItem_insert_def Let_def)

lemma distinct_addItem:
  assumes "distinct (map rid (rows s))"
  shows "distinct (map rid (rows (addItem item s)))"
proof (cases "find (\<lambda>row. rid row = iid item) (rows s)")
  case None
  then have "iid item \<notin> set (map rid (rows s))" by (simp add: find_rid_None)
  then show ?thesis using None assms
    by (simp add: addItem_def rows_addItem_insert)
next
  case (Some row)
  then have "rid row = iid item" by (auto dest: find_rid_Some)
  then show ?thesis using Some assms
    by (simp add: addItem_def rows_addItem_insert rows_deleteRow distinct_deleteRow_rows
        deleteRow_rows_gone del: status_num.simps)
qed

lemma distinct_fold_addItem:
  "distinct (map rid (rows s)) \<Longrightarrow> distinct (map rid (rows (fold addItem items s)))"
  by (induction items arbitrary: s) (auto simp: distinct_addItem)

lemma rid_rows_loop:
  "map rid (rows (vars (loop offline k sys))) = map rid (rows (vars sys))"
  by (simp add: loop_def split: list.splits)

lemma distinct_step:
  "step a sys = Some sys' \<Longrightarrow> distinct (map rid (rows (vars sys))) \<Longrightarrow>
     distinct (map rid (rows (vars sys')))"
  by (cases a)
     (auto simp: distinct_fold_addItem cancel_def addListener_def removeListener_def rid_rows_loop
           split: if_splits pc.splits)

lemma distinct_run:
  "run as sys = Some sys' \<Longrightarrow> distinct (map rid (rows (vars sys))) \<Longrightarrow>
     distinct (map rid (rows (vars sys')))"
  by (induction as arbitrary: sys) (auto split: option.splits dest: distinct_step)

lemma distinct_reachable: "run as start = Some sys \<Longrightarrow> distinct (map rid (rows (vars sys)))"
  using distinct_run [of as start sys] by (simp add: start_def init_def)



text \<open>
  C3. In every state the module can reach (by calls of its public functions and by the
  pieces of its worker, in any order) no two rows have the same id, and \<open>_addItem\<close>
  keeps it so. For an item whose id has a row: if that row is Queued or Processing,
  \<open>_addItem\<close> changes nothing (rows, queue, listener calls, flag); if it is Failed or
  Succeeded, the old row is removed, a fresh Queued row is put at the front, the id is
  put at the front of the queue, and the listeners are called in the order
  \<open>rowdeleted\<close>, \<open>rowadded\<close> (then \<open>nonempty\<close>, when the old row was the only one).
\<close>

theorem C3_one_row_per_id:
  assumes "run as start = Some sys"
  shows "distinct (map rid (rows (vars sys))) \<and>
         distinct (map rid (rows (addItem item (vars sys)))) \<and>
         (\<forall>row \<in> set (rows (vars sys)). rid row = iid item \<longrightarrow>
            (status row = ROW_QUEUED \<or> status row = ROW_PROCESSING \<longrightarrow>
               addItem item (vars sys) = vars sys) \<and>
            (status row = ROW_FAILED \<or> status row = ROW_SUCCEEDED \<longrightarrow>
               rows (addItem item (vars sys)) = new_row item # deleteRow_rows (iid item) (rows (vars sys)) \<and>
               iid item \<notin> rid ` set (deleteRow_rows (iid item) (rows (vars sys))) \<and>
               Suc (length (deleteRow_rows (iid item) (rows (vars sys)))) = length (rows (vars sys)) \<and>
               queue (addItem item (vars sys)) = iid item # queue (vars sys) \<and>
               calls (addItem item (vars sys)) =
                 calls (vars sys) @ fired ''rowdeleted'' (Deleted (iid item)) (vars sys)
                   @ fired ''rowadded'' (Row (new_row item)) (vars sys)
                   @ (if length (rows (vars sys)) = 1 then fired ''nonempty'' NoArg (vars sys) else [])))"
proof -
  let ?s = "vars sys"
  have d: "distinct (map rid (rows ?s))" using assms by (rule distinct_reachable)
  have d': "distinct (map rid (rows (addItem item ?s)))" using d by (rule distinct_addItem)
  have "addItem item ?s = ?s"
    if "row \<in> set (rows ?s)" "rid row = iid item" "status row = ROW_QUEUED \<or> status row = ROW_PROCESSING"
    for row
  proof -
    have "find (\<lambda>r. rid r = iid item) (rows ?s) = Some row"
      using find_rid_distinct [OF d that(1)] that(2) by simp
    then show ?thesis using that(3) by (auto simp: addItem_def)
  qed
  moreover have "rows (addItem item ?s) = new_row item # deleteRow_rows (iid item) (rows ?s) \<and>
        iid item \<notin> rid ` set (deleteRow_rows (iid item) (rows ?s)) \<and>
        Suc (length (deleteRow_rows (iid item) (rows ?s))) = length (rows ?s) \<and>
        queue (addItem item ?s) = iid item # queue ?s \<and>
        calls (addItem item ?s) =
          calls ?s @ fired ''rowdeleted'' (Deleted (iid item)) ?s
            @ fired ''rowadded'' (Row (new_row item)) ?s
            @ (if length (rows ?s) = 1 then fired ''nonempty'' NoArg ?s else [])"
    if "row \<in> set (rows ?s)" "rid row = iid item" "status row = ROW_FAILED \<or> status row = ROW_SUCCEEDED"
    for row
  proof -
    have f: "find (\<lambda>r. rid r = iid item) (rows ?s) = Some row"
      using find_rid_distinct [OF d that(1)] that(2) by simp
    have mem: "iid item \<in> set (map rid (rows ?s))" using that(1,2) by force
    have len: "Suc (length (deleteRow_rows (iid item) (rows ?s))) = length (rows ?s)"
      using mem by (rule length_deleteRow_rows)
    have a: "addItem item ?s = addItem_insert item (deleteRow (iid item) ?s)"
      using f that(2,3) by (auto simp: addItem_def)
    have c: "calls (deleteRow (iid item) ?s) = calls ?s @ fired ''rowdeleted'' (Deleted (iid item)) ?s"
      using f that(2) by (simp add: deleteRow_def)
    have l: "listeners (deleteRow (iid item) ?s) = listeners ?s"
      using f by (simp add: deleteRow_def)
    have q: "queue (deleteRow (iid item) ?s) = queue ?s"
      using f by (simp add: deleteRow_def)
    have fd: "fired name x (deleteRow (iid item) ?s) = fired name x ?s" for name x
      using l by (simp add: fired_def)
    have one: "length (deleteRow_rows (iid item) (rows ?s)) = 0 \<longleftrightarrow> length (rows ?s) = 1"
      using len by auto
    show ?thesis
      using len one deleteRow_rows_gone [OF d, of "iid item"]
      by (simp add: a rows_addItem_insert queue_addItem_insert rows_deleteRow new_row_def q)
         (simp add: addItem_insert_def Let_def c fd rows_deleteRow new_row_def)
  qed
  ultimately show ?thesis using d d' by blast
qed


lemmas eval_defs = start_def init_def addItem_def addItem_insert_def deleteRow_def updateRow_def
  fire_def loop_def item_done_def cancel_def addListener_def removeListener_def getString_def
  itemA_def itemB_def Let_def

lemma C3_run: "run C3_actions start = Some
   \<lparr>vars = \<lparr>listeners = [''rowdeleted'' \<mapsto> 1, ''rowadded'' \<mapsto> 2],
             rows = [\<lparr>rid = 2, status = ROW_FAILED, fileName = ''b.pdf'', message = Localized ''recognizePDF.noMatches''\<rparr>,
                     \<lparr>rid = 1, status = ROW_PROCESSING, fileName = ''a.pdf'', message = Localized ''recognizePDF.processing''\<rparr>],
             queue = [], queueProcessing = True,
             calls = [(''rowadded'', 2, Row (new_row itemA)), (''rowadded'', 2, Row (new_row itemB))]\<rparr>,
     workers = [AwaitItem 1], started = [2, 1]\<rparr>"
  by (simp add: C3_actions_def eval_defs new_row_def)


theorem C3_one_row_per_id_witness:
  "\<exists>sys. run C3_actions start = Some sys \<and>
     distinct (map rid (rows (vars sys))) \<and>
     addItem itemA (vars sys) = vars sys \<and>
     rows (addItem itemB (vars sys)) =
       [new_row itemB,
        \<lparr>rid = 1, status = ROW_PROCESSING, fileName = ''a.pdf'',
           message = Localized ''recognizePDF.processing''\<rparr>] \<and>
     queue (addItem itemB (vars sys)) = [2] \<and>
     calls (addItem itemB (vars sys)) =
       calls (vars sys) @ [(''rowdeleted'', 1, Deleted 2), (''rowadded'', 2, Row (new_row itemB))]"
  using C3_one_row_per_id [OF C3_run, of itemA] C3_one_row_per_id [OF C3_run, of itemB] C3_run
  by (simp add: fired_def itemA_def itemB_def)

subsection \<open>canRecognize\<close>

text \<open>
  C10. \<open>canRecognize(item)\<close> is \<open>true\<close> exactly when the attachment content type is
  \<open>'application/pdf'\<close> and \<open>isTopLevelItem()\<close> answers true, and it is truthy in
  exactly those cases. It is a function of the item alone: it takes no module state
  and returns none, and of the item it reads only those two attributes.
\<close>

theorem C10_canRecognize:
  "(canRecognize item = Bool True \<longleftrightarrow>
      attachmentContentType item = Some ''application/pdf'' \<and> isTopLevelItem item) \<and>
   (truthy (canRecognize item) \<longleftrightarrow>
      attachmentContentType item = Some ''application/pdf'' \<and> isTopLevelItem item) \<and>
   canRecognize (item\<lparr>iid := i, title := t, parentItemID := p, libraryID := l, getCollections := cs\<rparr>)
     = canRecognize item"
  by (auto simp: canRecognize_def split: option.splits)

theorem C10_canRecognize_witness:
  "canRecognize itemA = Bool True \<and> truthy (canRecognize itemA) \<and>
   canRecognize (itemA\<lparr>attachmentContentType := Some ''text/html''\<rparr>) = Bool False \<and>
   canRecognize (itemA\<lparr>attachmentContentType := None\<rparr>) = Undefined \<and>
   canRecognize (itemA\<lparr>isTopLevelItem := False\<rparr>) = Bool False"
  using C10_canRecognize [of itemA]
    C10_canRecognize [of "itemA\<lparr>attachmentContentType := Some ''text/html''\<rparr>"]
  by (simp add: itemA_def canRecognize_def)

subsection \<open>_recognize\<close>

text \<open>
  C7. When the extractor's output has no page with text (every \<open>page[2]\<close> is empty),
  \<open>_recognize\<close> throws the alert \<open>recognizePDF.noOCR\<close>, and the only call it has made
  is the run of the extractor: no request to the service and no lookup.
\<close>

theorem C7_no_text_no_request:
  assumes "extracted env = Some j" and "\<forall>p \<in> set (pages j). page2 p = []"
  shows "recognize env item = (Inl (Alert ''recognizePDF.noOCR''), [Exec MAX_PAGES]) \<and>
         \<not> list_ex network (snd (recognize env item))"
proof -
  have "filter (\<lambda>p. length (page2 p) \<noteq> 0) (pages j) = []"
    using assms(2) by (simp add: filter_empty_conv)
  then have "containingTextPages j = 0" by (simp add: containingTextPages_def)
  then show ?thesis using assms(1) by (simp add: recognize_def extractJSON_def)
qed

theorem C7_no_text_no_request_witness:
  "recognize (envA\<lparr>extracted := Some \<lparr>pages = [(612, 792, []), (612, 792, [])]\<rparr>\<rparr>) itemA
     = (Inl (Alert ''recognizePDF.noOCR''), [Exec 5])"
  using C7_no_text_no_request
    [of "envA\<lparr>extracted := Some \<lparr>pages = [(612, 792, []), (612, 792, [])]\<rparr>\<rparr>"
        "\<lparr>pages = [(612, 792, []), (612, 792, [])]\<rparr>" itemA]
  by (simp add: page2_def MAX_PAGES_def)

text \<open>
  C8, as amended. The three branches are tried in the order DOI, ISBN, title, and the
  first that yields an item ends the resolver. The DOI branch runs exactly when the
  response carries a DOI; the ISBN branch exactly when it carries an ISBN and the DOI
  branch did not yield an item (no DOI, or the lookup threw or found nothing); the
  title branch exactly when it carries a title and neither earlier branch yielded an
  item.
\<close>

theorem C8_branches_in_order:
  "(ran_doi (snd (resolve env lib r)) \<longleftrightarrow> given (res_doi r)) \<and>
   (ran_isbn (snd (resolve env lib r)) \<longleftrightarrow>
      given (res_isbn r) \<and> \<not> (given (res_doi r) \<and> yields (translateDOI env))) \<and>
   (ran_title (snd (resolve env lib r)) \<longleftrightarrow>
      given (res_title r) \<and> \<not> (given (res_doi r) \<and> yields (translateDOI env))
        \<and> \<not> (given (res_isbn r) \<and> yields (translateISBN env)))"
  by (cases "translateDOI env" rule: yields.cases; cases "translateISBN env" rule: yields.cases)
     (auto simp: resolve_def doi_branch_def isbn_branch_def title_branch_def promiseTranslate_def
        ran_doi_def ran_isbn_def ran_title_def Let_def split: option.splits)

theorem C8_branches_in_order_witness:
  "ran_doi (snd (resolve (envA\<lparr>translateDOI := Some [new_Item (Some ''journalArticle'')]\<rparr>) 1 res_all)) \<and>
   \<not> ran_isbn (snd (resolve (envA\<lparr>translateDOI := Some [new_Item (Some ''journalArticle'')]\<rparr>) 1 res_all)) \<and>
   \<not> ran_title (snd (resolve (envA\<lparr>translateDOI := Some [new_Item (Some ''journalArticle'')]\<rparr>) 1 res_all))"
  using C8_branches_in_order [of "envA\<lparr>translateDOI := Some [new_Item (Some ''journalArticle'')]\<rparr>" 1 res_all]
  by (simp add: res_all_def no_res_def envA_def)

text \<open>
  Without the amendment the statement fails: for a response with a DOI whose lookup
  throws, an ISBN whose lookup finds nothing, and a title, all three branches run.
\<close>

lemma C8_fx: "snd (resolve envA lib res_all) =
   [Debug ''RecognizePDF: Getting metadata by DOI'', Translate ''journalArticle'' (Some ''10.1000/182''),
    Debug ''RecognizePDF: Error: translate'',
    Debug ''RecognizePDF: Getting metadata by ISBN'', Translate ''book'' (Some ''9780306406157''),
    Debug ''RecognizePDF: Translated items:'',
    New_Item (Some ''journalArticle''), SaveTx (title_item res_all [])]"
  by (simp add: resolve_def res_all_def no_res_def envA_def doi_branch_def isbn_branch_def
      title_branch_def promiseTranslate_def title_type_def)

theorem C8_counterexample:
  "given (res_doi res_all) \<and> ran_doi (snd (resolve envA 1 res_all)) \<and>
   ran_isbn (snd (resolve envA 1 res_all)) \<and> ran_title (snd (resolve envA 1 res_all))"
  by (simp add: C8_fx ran_doi_def ran_isbn_def ran_title_def, simp add: res_all_def no_res_def)

text \<open>
  C9. A response with a title, no authors, and an ISSN under the key \<open>ISSN\<close>: line 452
  tests \<open>res.ISSN\<close> and passes \<open>res.issn\<close>, so the item's \<open>issn\<close> field is set to
  \<open>undefined\<close> and reads as empty. With the ISSN under the key \<open>issn\<close> the test
  fails and the field is not set at all.
\<close>

theorem C9_ISSN_not_set:
  "fst (resolve envA 1 C9_res) = Inr (Some (saveTx envA (title_item C9_res []))) \<and>
   zfields (saveTx envA (title_item C9_res [])) =
     [(''title'', Some ''Title of the paper''), (''issn'', None), (''libraryCatalog'', Some ''Zotero'')] \<and>
   getField ''issn'' (saveTx envA (title_item C9_res [])) = [] \<and>
   zfields (title_item (C9_res\<lparr>res_ISSN := None, res_issn := Some ''1234-5679''\<rparr>) []) =
     [(''title'', Some ''Title of the paper''), (''libraryCatalog'', Some ''Zotero'')]"
  by (simp add: resolve_def C9_res_def no_res_def envA_def title_branch_def title_item_def
      title_type_def setField_if_def setField_def setCreators_def new_Item_def saveTx_def
      getField_def Let_def)

subsection \<open>_processItem\<close>

lemma addItems_Inr:
  "addItems throws cs newID st = Inr st' \<Longrightarrow>
     (\<forall>c \<in> set cs. \<not> throws c \<and> newID \<in> set (collectionItems st' c)) \<and>
     (\<forall>c. set (collectionItems st c) \<subseteq> set (collectionItems st' c)) \<and>
     parentID st' = parentID st"
proof (induction cs arbitrary: st)
  case Nil
  then show ?case by simp
next
  case (Cons c cs)
  let ?st1 = "st\<lparr>collectionItems := (collectionItems st)(c := collectionItems st c @ [newID])\<rparr>"
  from Cons.prems have nt: "\<not> throws c" and rec: "addItems throws cs newID ?st1 = Inr st'"
    by (auto split: if_splits)
  note ih = Cons.IH [OF rec]
  have sub: "set (collectionItems ?st1 d) \<subseteq> set (collectionItems st' d)" for d
    using ih by blast
  have "newID \<in> set (collectionItems ?st1 c)" by simp
  then have "newID \<in> set (collectionItems st' c)" using sub [of c] by blast
  moreover have "set (collectionItems st d) \<subseteq> set (collectionItems st' d)" for d
    using sub [of d] by (auto split: if_splits)
  ultimately show ?case using ih nt by auto
qed

lemma addItems_Inl:
  "(\<exists>e. addItems throws cs newID st = Inl e) \<longleftrightarrow> (\<exists>c \<in> set cs. throws c)"
  by (induction cs arbitrary: st) auto

text \<open>
  C4. When recognition has produced a new item, \<open>_processItem\<close> either returns it,
  and then the new item is in every collection of the source document and the source
  document's parent is the new item, or throws, and then the stored collections and
  parents are what they were before: that is the case exactly when
  \<open>collection.addItem\<close> throws for one of the collections or \<open>item.save\<close> throws.
  The error thrown is the outcome of \<open>_processItem\<close>, which the worker loop turns into
  a Failed row.
\<close>

theorem C4_transaction_all_or_nothing:
  assumes "getAsync env itemID = Some item" and "\<not> id_given (parentItemID item)"
    and "recognize env item = (Inr (Some newItem), fx)"
  shows "if (\<exists>c \<in> set (getCollections item). addItem_throws env c) \<or> save_throws env
         then (\<exists>e. processItem env itemID st = ((Inl e, fx), st))
         else (\<exists>st'. processItem env itemID st = ((Inr (Some newItem), fx), st') \<and>
                 (\<forall>c \<in> set (getCollections item). zid newItem \<in> set (collectionItems st' c)) \<and>
                 parentID st' (iid item) = Some (zid newItem))"
proof (cases "addItems (addItem_throws env) (getCollections item) (zid newItem) st")
  case (Inl e)
  then have "\<exists>c \<in> set (getCollections item). addItem_throws env c"
    using addItems_Inl [of "addItem_throws env" "getCollections item" "zid newItem" st] by blast
  then show ?thesis using assms Inl
    by (simp add: processItem_def executeTransaction_def transaction_body_def)
next
  case (Inr st1)
  note facts = addItems_Inr [OF Inr]
  have no: "\<not> (\<exists>c \<in> set (getCollections item). addItem_throws env c)"
    using facts by blast
  show ?thesis
  proof (cases "save_throws env")
    case True
    then show ?thesis using assms Inr
      by (simp add: processItem_def executeTransaction_def transaction_body_def)
  next
    case False
    then show ?thesis using assms Inr no facts
      by (simp add: processItem_def executeTransaction_def transaction_body_def)
  qed
qed

lemma recognize_envA:
  "recognize (envA\<lparr>save_throws := b\<rparr>) itemA =
     (Inr (Some (saveTx envA (title_item res_all []))),
      [Exec 5, Request \<lparr>pages = [(612, 792, [''Title of the paper'']), (612, 792, [])]\<rparr>,
       Debug ''RecognizePDF: Getting metadata by DOI'', Translate ''journalArticle'' (Some ''10.1000/182''),
       Debug ''RecognizePDF: Error: translate'',
       Debug ''RecognizePDF: Getting metadata by ISBN'', Translate ''book'' (Some ''9780306406157''),
       Debug ''RecognizePDF: Translated items:'',
       New_Item (Some ''journalArticle''), SaveTx (title_item res_all [])])"
  by (simp add: recognize_def extractJSON_def query_def containingTextPages_def page2_def
      MAX_PAGES_def resolve_def res_all_def no_res_def envA_def doi_branch_def isbn_branch_def
      title_branch_def promiseTranslate_def title_type_def saveTx_def)

lemma zid_envA: "zid (saveTx envA (title_item res_all [])) = 9"
  by (simp add: saveTx_def envA_def title_item_def Let_def setField_def setField_if_def
      setCreators_def new_Item_def title_type_def res_all_def no_res_def)

theorem C4_transaction_all_or_nothing_witness:
  "(\<exists>fx. processItem (envA\<lparr>save_throws := True\<rparr>) 1 store0 = ((Inl (Error ''save''), fx), store0)) \<and>
   (\<exists>newItem fx st'. processItem (envA\<lparr>save_throws := False\<rparr>) 1 store0 = ((Inr (Some newItem), fx), st') \<and>
       collectionItems st' 7 = [1, 9] \<and> parentID st' 1 = Some 9)"
proof -
  have g: "getAsync (envA\<lparr>save_throws := b\<rparr>) 1 = Some itemA" for b by (simp add: envA_def)
  have g': "getAsync envA (Suc 0) = Some itemA" by (simp add: envA_def)
  have p: "\<not> id_given (parentItemID itemA)" by (simp add: itemA_def)
  have t: "addItem_throws envA = (\<lambda>c. False)" by (simp add: envA_def)
  have c: "getCollections itemA = [7]" "iid itemA = Suc 0" by (simp_all add: itemA_def)
  show ?thesis
    using C4_transaction_all_or_nothing [OF g p recognize_envA, of True store0]
      C4_transaction_all_or_nothing [OF g p recognize_envA, of False store0]
    by (simp add: processItem_def executeTransaction_def transaction_body_def recognize_envA
        g' p t c zid_envA store0_def)
qed

subsection \<open>_processQueue: one loop at a time\<close>

lemma count_update:
  "k < length ws \<Longrightarrow>
     length (filter P (ws[k := p])) + (if P (ws ! k) then 1 else 0) =
     length (filter P ws) + (if P p then 1 else 0)"
proof (induction ws arbitrary: k)
  case Nil
  then show ?case by simp
next
  case (Cons w ws)
  then show ?case by (cases k) auto
qed

lemma count_pos: "k < length ws \<Longrightarrow> P (ws ! k) \<Longrightarrow> 0 < length (filter P ws)"
  by (metis filter_empty_conv length_greater_0_conv nth_mem)

lemma queueProcessing_deleteRow [simp]: "queueProcessing (deleteRow i s) = queueProcessing s"
  by (simp add: deleteRow_def split: option.splits)

lemma queue_deleteRow [simp]: "queue (deleteRow i s) = queue s"
  by (simp add: deleteRow_def split: option.splits)

lemma queueProcessing_addItem [simp]: "queueProcessing (addItem item s) = queueProcessing s"
  by (simp add: addItem_def addItem_insert_def Let_def split: option.splits)

lemma queueProcessing_fold_addItem [simp]:
  "queueProcessing (fold addItem items s) = queueProcessing s"
  by (induction items arbitrary: s) auto

lemma queue_addItem: "queue (addItem item s) = queue s \<or> queue (addItem item s) = iid item # queue s"
  by (simp add: addItem_def queue_addItem_insert split: option.splits)

lemma positive_fold_addItem:
  "0 \<notin> set (queue s) \<Longrightarrow> list_all (\<lambda>item. 0 < iid item) items \<Longrightarrow>
     0 \<notin> set (queue (fold addItem items s))"
proof (induction items arbitrary: s)
  case Nil
  then show ?case by simp
next
  case (Cons item items)
  have "0 \<notin> set (queue (addItem item s))"
    using Cons.prems queue_addItem [of item s] by auto
  then show ?case using Cons by simp
qed

lemma single_flight_loop:
  assumes "k < length (workers sys)" and "queueProcessing (vars sys)"
    and "length (filter in_loop (workers sys)) = (if in_loop (workers sys ! k) then 1 else 0)"
  shows "single_flight (loop offline k sys)"
  using assms count_update [OF assms(1), of in_loop "Sleeping OFFLINE_RECHECK_DELAY"]
    count_update [OF assms(1), of in_loop Returned]
    count_update [OF assms(1), of in_loop "AwaitItem (hd (queue (vars sys)))"]
  by (auto simp: single_flight_def loop_def split: list.splits if_splits)

lemma single_flight_step:
  assumes "step a sys = Some sys'" and "single_flight sys"
  shows "single_flight sys'"
proof (cases a)
  case (RecognizeItems items)
  then show ?thesis using assms by (auto simp: single_flight_def)
next
  case Cancel
  then show ?thesis using assms by (auto simp: single_flight_def cancel_def)
next
  case (AddListener name callback)
  then show ?thesis using assms by (auto simp: single_flight_def addListener_def)
next
  case (RemoveListener name)
  then show ?thesis using assms by (auto simp: single_flight_def removeListener_def)
next
  case (SchemaReady k offline)
  with assms(1) have k: "k < length (workers sys)" and pc: "workers sys ! k = AwaitSchema"
    by (auto split: if_splits pc.splits)
  show ?thesis
  proof (cases "queueProcessing (vars sys)")
    case True
    then have "sys' = sys\<lparr>workers := (workers sys)[k := Returned]\<rparr>"
      using assms(1) SchemaReady k pc by simp
    then show ?thesis
      using assms(2) count_update [OF k, of in_loop Returned] pc
      by (simp add: single_flight_def)
  next
    case False
    then have s': "sys' = loop offline k (sys\<lparr>vars := (vars sys)\<lparr>queueProcessing := True\<rparr>\<rparr>)"
      using assms(1) SchemaReady k pc by simp
    have "length (filter in_loop (workers sys)) = 0"
      using assms(2) False by (simp add: single_flight_def)
    then show ?thesis unfolding s'
      using k pc by (intro single_flight_loop) simp_all
  qed
next
  case (DelayElapsed k offline)
  with assms(1) obtain ms where k: "k < length (workers sys)" and pc: "workers sys ! k = Sleeping ms"
    and s': "sys' = loop offline k sys"
    by (auto split: if_splits pc.splits)
  have "0 < length (filter in_loop (workers sys))"
    using count_pos [OF k, of in_loop] pc by simp
  then have "queueProcessing (vars sys)" "length (filter in_loop (workers sys)) = 1"
    using assms(2) by (auto simp: single_flight_def split: if_splits)
  then show ?thesis unfolding s'
    using k pc by (intro single_flight_loop) simp_all
next
  case (ItemDone k outcome offline)
  with assms(1) obtain i where k: "k < length (workers sys)" and pc: "workers sys ! k = AwaitItem i"
    and s': "sys' = loop offline k (sys\<lparr>vars := item_done i outcome (vars sys)\<rparr>)"
    by (auto split: if_splits pc.splits)
  have "0 < length (filter in_loop (workers sys))"
    using count_pos [OF k, of in_loop] pc by simp
  then have "queueProcessing (vars sys)" "length (filter in_loop (workers sys)) = 1"
    using assms(2) by (auto simp: single_flight_def split: if_splits)
  then show ?thesis unfolding s'
    using k pc by (intro single_flight_loop) simp_all
qed

lemma queue_loop_subset: "set (queue (vars (loop offline k sys))) \<subseteq> set (queue (vars sys))"
  by (auto simp: loop_def split: list.splits)

lemma positive_step:
  assumes "step a sys = Some sys'" and "positive_ids a" and "0 \<notin> set (queue (vars sys))"
  shows "0 \<notin> set (queue (vars sys'))"
proof (cases a)
  case (RecognizeItems items)
  then show ?thesis using assms by (auto simp: positive_fold_addItem)
next
  case (SchemaReady k offline)
  then show ?thesis
    using assms queue_loop_subset [of offline k "sys\<lparr>vars := (vars sys)\<lparr>queueProcessing := True\<rparr>\<rparr>"]
    by (auto split: if_splits pc.splits)
next
  case (DelayElapsed k offline)
  then show ?thesis using assms queue_loop_subset [of offline k sys]
    by (auto split: if_splits pc.splits)
next
  case (ItemDone k outcome offline)
  then obtain i where "sys' = loop offline k (sys\<lparr>vars := item_done i outcome (vars sys)\<rparr>)"
    using assms(1) by (auto split: if_splits pc.splits)
  then show ?thesis
    using assms(3) queue_loop_subset [of offline k "sys\<lparr>vars := item_done i outcome (vars sys)\<rparr>"]
    by auto
qed (use assms in \<open>auto simp: cancel_def addListener_def removeListener_def\<close>)

lemma reachable_invariants:
  "run as sys = Some sys' \<Longrightarrow> list_all positive_ids as \<Longrightarrow>
     single_flight sys \<Longrightarrow> 0 \<notin> set (queue (vars sys)) \<Longrightarrow>
     single_flight sys' \<and> 0 \<notin> set (queue (vars sys'))"
proof (induction as arbitrary: sys)
  case Nil
  then show ?case by simp
next
  case (Cons a as)
  then obtain s1 where 1: "step a sys = Some s1" and 2: "run as s1 = Some sys'"
    by (auto split: option.splits)
  have "single_flight s1" using 1 Cons.prems(3) by (rule single_flight_step)
  moreover have "0 \<notin> set (queue (vars s1))" using positive_step [OF 1] Cons.prems(2,4) by simp
  ultimately show ?case using Cons.IH [OF 2] Cons.prems(2) by simp
qed

lemma flag_cleared:
  assumes "step a sys = Some sys'" and "queueProcessing (vars sys)"
    and "\<not> queueProcessing (vars sys')" and "0 \<notin> set (queue (vars sys))"
  shows "queue (vars sys) = [] \<and>
         (\<exists>k. k < length (workers sys) \<and> in_loop (workers sys ! k) \<and>
              workers sys' = (workers sys)[k := Returned] \<and>
              (a = DelayElapsed k False \<or> (\<exists>outcome. a = ItemDone k outcome False)))"
proof (cases a)
  case (SchemaReady k offline)
  then show ?thesis using assms by (auto split: if_splits pc.splits)
next
  case (DelayElapsed k offline)
  then show ?thesis using assms
    by (auto simp: loop_def split: if_splits pc.splits list.splits)
next
  case (ItemDone k outcome offline)
  then show ?thesis using assms
    by (auto simp: loop_def split: if_splits pc.splits list.splits)
qed (use assms in \<open>auto simp: cancel_def addListener_def removeListener_def\<close>)

text \<open>
  C2. In every state the module can reach, at most one activation of \<open>_processQueue\<close>
  is inside the loop, and one is exactly when the flag is set. An activation that
  finds the flag set when it resumes from its first \<open>await\<close> returns, and nothing
  else changes: no row, no id of the queue, no listener call, no call of
  \<open>_processItem\<close>. The flag goes from set to cleared only in a piece of the activation
  inside the loop that finds the network up and the queue empty, and that activation
  returns. Queued ids are positive, as ids of items are.
\<close>

theorem C2_single_flight:
  assumes "run as start = Some sys" and "list_all positive_ids as"
  shows "length (filter in_loop (workers sys)) \<le> 1 \<and>
         (queueProcessing (vars sys) \<longleftrightarrow> length (filter in_loop (workers sys)) = 1) \<and>
         (\<forall>k offline. k < length (workers sys) \<and> workers sys ! k = AwaitSchema \<and>
              queueProcessing (vars sys) \<longrightarrow>
            step (SchemaReady k offline) sys = Some (sys\<lparr>workers := (workers sys)[k := Returned]\<rparr>)) \<and>
         (\<forall>a sys'. step a sys = Some sys' \<and> queueProcessing (vars sys) \<and>
              \<not> queueProcessing (vars sys') \<longrightarrow>
            queue (vars sys) = [] \<and>
            (\<exists>k. k < length (workers sys) \<and> in_loop (workers sys ! k) \<and>
                 workers sys' = (workers sys)[k := Returned] \<and>
                 (a = DelayElapsed k False \<or> (\<exists>outcome. a = ItemDone k outcome False))))"
proof -
  have "single_flight start" "0 \<notin> set (queue (vars start))"
    by (simp_all add: single_flight_def start_def init_def)
  with reachable_invariants [OF assms] have inv: "single_flight sys" "0 \<notin> set (queue (vars sys))"
    by simp_all
  have 1: "length (filter in_loop (workers sys)) \<le> 1"
    and 2: "queueProcessing (vars sys) \<longleftrightarrow> length (filter in_loop (workers sys)) = 1"
    using inv(1) by (auto simp: single_flight_def split: if_splits)
  have 3: "step (SchemaReady k offline) sys = Some (sys\<lparr>workers := (workers sys)[k := Returned]\<rparr>)"
    if "k < length (workers sys) \<and> workers sys ! k = AwaitSchema \<and> queueProcessing (vars sys)"
    for k offline
    using that by simp
  show ?thesis using 1 2 3 flag_cleared inv(2) by blast
qed

lemma second_call_run: "run second_call start = Some second_call_state"
  by (simp add: second_call_def second_call_state_def eval_defs)

lemma C2_last_run: "run C2_last start = Some C2_last_state"
  by (simp add: C2_last_def C2_last_state_def eval_defs)

theorem C2_single_flight_witness:
  "run second_call start = Some second_call_state \<and>
   queueProcessing (vars second_call_state) \<and>
   length (filter in_loop (workers second_call_state)) = 1 \<and>
   step (SchemaReady 1 False) second_call_state =
     Some (second_call_state\<lparr>workers := [AwaitItem 2, Returned]\<rparr>) \<and>
   run C2_last start = Some C2_last_state \<and>
   (\<exists>sys'. step (ItemDone 0 (Inr None) False) C2_last_state = Some sys' \<and>
       \<not> queueProcessing (vars sys') \<and> workers sys' = [Returned]) \<and>
   queue (vars C2_last_state) = []"
proof -
  have p: "list_all positive_ids second_call" "list_all positive_ids C2_last"
    by (simp_all add: second_call_def C2_last_def itemA_def itemB_def)
  note t1 = C2_single_flight [OF second_call_run p(1)]
  note t2 = C2_single_flight [OF C2_last_run p(2)]
  have a1: "queueProcessing (vars second_call_state)" by (simp add: second_call_state_def)
  from t1 a1 have a2: "length (filter in_loop (workers second_call_state)) = 1" by blast
  have "1 < length (workers second_call_state) \<and> workers second_call_state ! 1 = AwaitSchema"
    by (simp add: second_call_state_def)
  with t1 a1 have "step (SchemaReady 1 False) second_call_state =
      Some (second_call_state\<lparr>workers := (workers second_call_state)[1 := Returned]\<rparr>)"
    by blast
  moreover have "(workers second_call_state)[1 := Returned] = [AwaitItem 2, Returned]"
    by (simp add: second_call_state_def)
  ultimately have a3: "step (SchemaReady 1 False) second_call_state =
      Some (second_call_state\<lparr>workers := [AwaitItem 2, Returned]\<rparr>)"
    by simp
  obtain sys' where s: "step (ItemDone 0 (Inr None) False) C2_last_state = Some sys'"
    and f: "\<not> queueProcessing (vars sys')" "workers sys' = [Returned]"
    by (simp add: C2_last_state_def eval_defs)
  have "queueProcessing (vars C2_last_state)" by (simp add: C2_last_state_def)
  with t2 s f(1) have a4: "queue (vars C2_last_state) = []" by blast
  show ?thesis using second_call_run C2_last_run a1 a2 a3 a4 s f by blast
qed

subsection \<open>_processQueue: errors, the network, and the order of processing\<close>

lemma updateRow_rows_absent: "i \<notin> set (map rid rs) \<Longrightarrow> updateRow_rows i st m rs = rs"
  by (induction rs) auto

lemma rows_updateRow: "rows (updateRow i st m s) = updateRow_rows i st m (rows s)"
proof (cases "find (\<lambda>row. rid row = i) (rows s)")
  case None
  then have "i \<notin> set (map rid (rows s))" by (simp add: find_rid_None)
  then have "updateRow_rows i st m (rows s) = rows s" by (rule updateRow_rows_absent)
  with None show ?thesis by (simp add: updateRow_def)
next
  case (Some row)
  then show ?thesis by (simp add: updateRow_def)
qed

lemma find_updateRow_rows:
  "find (\<lambda>r. rid r = i) rs = Some row \<Longrightarrow>
     find (\<lambda>r. rid r = i) (updateRow_rows i st m rs) = Some (row\<lparr>status := st, message := m\<rparr>)"
  by (induction rs) (auto split: if_splits)

lemma step_ItemDone:
  "k < length (workers sys) \<Longrightarrow> workers sys ! k = AwaitItem i \<Longrightarrow>
     step (ItemDone k outcome offline) sys =
       Some (loop offline k (sys\<lparr>vars := item_done i outcome (vars sys)\<rparr>))"
  by simp

lemma loop_next:
  "queue (vars sys) = n # rest \<Longrightarrow> n \<noteq> 0 \<Longrightarrow> k < length (workers sys) \<Longrightarrow>
     workers (loop False k sys) = (workers sys)[k := AwaitItem n] \<and>
     queue (vars (loop False k sys)) = rest \<and>
     started (loop False k sys) = started sys @ [n] \<and>
     queueProcessing (vars (loop False k sys)) = queueProcessing (vars sys)"
  by (simp add: loop_def)

lemma loop_empty:
  "queue (vars sys) = [] \<Longrightarrow>
     workers (loop False k sys) = (workers sys)[k := Returned] \<and>
     queue (vars (loop False k sys)) = [] \<and>
     started (loop False k sys) = started sys \<and>
     \<not> queueProcessing (vars (loop False k sys))"
  by (simp add: loop_def)

lemma drain:
  "k < length (workers sys) \<Longrightarrow> workers sys ! k = AwaitItem i \<Longrightarrow>
   0 \<notin> set (queue (vars sys)) \<Longrightarrow> length outs = Suc (length (queue (vars sys))) \<Longrightarrow>
     \<exists>sys'. run (map (\<lambda>out. ItemDone k out False) outs) sys = Some sys' \<and>
       started sys' = started sys @ queue (vars sys) \<and> queue (vars sys') = [] \<and>
       workers sys' = (workers sys)[k := Returned] \<and> \<not> queueProcessing (vars sys')"
proof (induction outs arbitrary: sys i)
  case Nil
  then show ?case by simp
next
  case (Cons out outs)
  let ?s0 = "sys\<lparr>vars := item_done i out (vars sys)\<rparr>"
  let ?s1 = "loop False k ?s0"
  have st: "step (ItemDone k out False) sys = Some ?s1"
    using Cons.prems(1,2) by (rule step_ItemDone)
  show ?case
  proof (cases "queue (vars sys)")
    case Nil
    then have "outs = []" using Cons.prems(4) by simp
    moreover have "queue (vars ?s0) = []" using Nil by simp
    ultimately show ?thesis using st loop_empty [of ?s0 k] Nil by simp
  next
    case (Cons n rest)
    then have n: "n \<noteq> 0" and q0: "queue (vars ?s0) = n # rest"
      using Cons.prems(3) by auto
    have k0: "k < length (workers ?s0)" using Cons.prems(1) by simp
    note l = loop_next [OF q0 n k0]
    have "k < length (workers ?s1)" using l Cons.prems(1) by simp
    moreover have "workers ?s1 ! k = AwaitItem n" using l Cons.prems(1) by simp
    moreover have "0 \<notin> set (queue (vars ?s1))" using l Cons.prems(3) Cons by simp
    moreover have "length outs = Suc (length (queue (vars ?s1)))"
      using l Cons.prems(4) Cons by simp
    ultimately obtain sys' where
      r: "run (map (\<lambda>out. ItemDone k out False) outs) ?s1 = Some sys'"
      and f: "started sys' = started ?s1 @ queue (vars ?s1)" "queue (vars sys') = []"
        "workers sys' = (workers ?s1)[k := Returned]" "\<not> queueProcessing (vars sys')"
      using Cons.IH [of ?s1 n] by blast
    have "run (map (\<lambda>out. ItemDone k out False) (out # outs)) sys = Some sys'"
      using st r by simp
    moreover have "started sys' = started sys @ queue (vars sys)"
      using f(1) l Cons by simp
    moreover have "workers sys' = (workers sys)[k := Returned]"
      using f(3) l by simp
    ultimately show ?thesis using f(2,4) by blast
  qed
qed

text \<open>
  C5. When \<open>_processItem\<close> throws, whatever the error, the activation goes on from
  the \<open>catch\<close> to the head of the loop: the piece is the same as after a success,
  with the row update of the \<open>catch\<close>. If the table has a row for the id, that row
  becomes Failed, with the error's own message for an alert and the localised
  \<open>recognizePDF.error\<close> for any other error. If the network is up and an id is queued,
  that id is taken next and \<open>_processItem\<close> is called with it; and however the items
  of the queue end (each may throw), every queued id is handed to \<open>_processItem\<close>, in
  queue order, before the activation returns.
\<close>

theorem C5_errors_do_not_stop_the_loop:
  assumes "k < length (workers sys)" and "workers sys ! k = AwaitItem itemID"
    and "m = (if is_Alert e then err_message e else getString ''recognizePDF.error'')"
  shows "step (ItemDone k (Inl e) offline) sys =
           Some (loop offline k (sys\<lparr>vars := updateRow itemID ROW_FAILED m (vars sys)\<rparr>)) \<and>
         (\<forall>row. find (\<lambda>r. rid r = itemID) (rows (vars sys)) = Some row \<longrightarrow>
            find (\<lambda>r. rid r = itemID) (rows (updateRow itemID ROW_FAILED m (vars sys)))
              = Some (row\<lparr>status := ROW_FAILED, message := m\<rparr>)) \<and>
         (\<forall>n rest. queue (vars sys) = n # rest \<and> n \<noteq> 0 \<longrightarrow>
            (\<exists>sys'. step (ItemDone k (Inl e) False) sys = Some sys' \<and>
                workers sys' = (workers sys)[k := AwaitItem n] \<and> started sys' = started sys @ [n] \<and>
                queue (vars sys') = rest \<and>
                queueProcessing (vars sys') = queueProcessing (vars sys))) \<and>
         (\<forall>outs. 0 \<notin> set (queue (vars sys)) \<and> length outs = length (queue (vars sys)) \<longrightarrow>
            (\<exists>sys'. run (ItemDone k (Inl e) False # map (\<lambda>out. ItemDone k out False) outs) sys = Some sys' \<and>
                started sys' = started sys @ queue (vars sys) \<and> queue (vars sys') = [] \<and>
                workers sys' = (workers sys)[k := Returned]))"
proof -
  let ?s0 = "sys\<lparr>vars := updateRow itemID ROW_FAILED m (vars sys)\<rparr>"
  have d: "item_done itemID (Inl e) (vars sys) = updateRow itemID ROW_FAILED m (vars sys)"
    using assms(3) by (simp add: item_done_def)
  have 1: "step (ItemDone k (Inl e) offline) sys = Some (loop offline k ?s0)" for offline
    using step_ItemDone [OF assms(1,2), of "Inl e" offline] d by simp
  have 2: "find (\<lambda>r. rid r = itemID) (rows (updateRow itemID ROW_FAILED m (vars sys)))
              = Some (row\<lparr>status := ROW_FAILED, message := m\<rparr>)"
    if "find (\<lambda>r. rid r = itemID) (rows (vars sys)) = Some row" for row
    using that by (simp add: rows_updateRow find_updateRow_rows)
  have 3: "\<exists>sys'. step (ItemDone k (Inl e) False) sys = Some sys' \<and>
                workers sys' = (workers sys)[k := AwaitItem n] \<and> started sys' = started sys @ [n] \<and>
                queue (vars sys') = rest \<and>
                queueProcessing (vars sys') = queueProcessing (vars sys)"
    if "queue (vars sys) = n # rest \<and> n \<noteq> 0" for n rest
    using that loop_next [of ?s0 n rest k] assms(1) 1 [of False] by simp
  have 4: "\<exists>sys'. run (ItemDone k (Inl e) False # map (\<lambda>out. ItemDone k out False) outs) sys = Some sys' \<and>
                started sys' = started sys @ queue (vars sys) \<and> queue (vars sys') = [] \<and>
                workers sys' = (workers sys)[k := Returned]"
    if "0 \<notin> set (queue (vars sys)) \<and> length outs = length (queue (vars sys))" for outs
  proof -
    from that have "0 \<notin> set (queue (vars sys))"
      and "length (Inl e # outs) = Suc (length (queue (vars sys)))" by simp_all
    from drain [OF assms(1,2) this] show ?thesis unfolding list.map by blast
  qed
  show ?thesis using 1 2 3 4 by blast
qed

theorem C5_errors_do_not_stop_the_loop_witness:
  "run second_call start = Some second_call_state \<and>
   (\<exists>sys'. step (ItemDone 0 (Inl (Alert ''recognizePDF.noOCR'')) False) second_call_state = Some sys' \<and>
      map (\<lambda>r. (rid r, status r, message r)) (rows (vars sys')) =
        [(2, ROW_FAILED, Localized ''recognizePDF.noOCR''),
         (1, ROW_PROCESSING, Localized ''recognizePDF.processing'')] \<and>
      workers sys' = [AwaitItem 1, AwaitSchema]) \<and>
   (\<exists>sys'. step (ItemDone 0 (Inl (Error ''Request error'')) False) second_call_state = Some sys' \<and>
      map (\<lambda>r. (rid r, status r, message r)) (rows (vars sys')) =
        [(2, ROW_FAILED, Localized ''recognizePDF.error''),
         (1, ROW_PROCESSING, Localized ''recognizePDF.processing'')] \<and>
      workers sys' = [AwaitItem 1, AwaitSchema]) \<and>
   (\<exists>sys'. run [ItemDone 0 (Inl TypeError) False, ItemDone 0 (Inl TypeError) False] second_call_state = Some sys' \<and>
      started sys' = [2, 1] \<and> queue (vars sys') = [] \<and> workers sys' = [Returned, AwaitSchema])"
proof -
  have k: "0 < length (workers second_call_state)" and w: "workers second_call_state ! 0 = AwaitItem 2"
    by (simp_all add: second_call_state_def)
  show ?thesis
    using C5_errors_do_not_stop_the_loop [OF k w refl, of "Alert ''recognizePDF.noOCR''" False]
      C5_errors_do_not_stop_the_loop [OF k w refl, of "Error ''Request error''" False]
      C5_errors_do_not_stop_the_loop [OF k w refl, of TypeError False]
    by (simp add: second_call_run) (simp add: second_call_state_def eval_defs)
qed

lemma offline_run:
  "k < length (workers sys) \<Longrightarrow> workers sys ! k = Sleeping ms \<Longrightarrow>
     run (replicate n (DelayElapsed k True)) sys =
       Some (if n = 0 then sys
             else sys\<lparr>workers := (workers sys)[k := Sleeping OFFLINE_RECHECK_DELAY]\<rparr>)"
proof (induction n arbitrary: sys ms)
  case 0
  then show ?case by simp
next
  case (Suc n)
  let ?s1 = "sys\<lparr>workers := (workers sys)[k := Sleeping OFFLINE_RECHECK_DELAY]\<rparr>"
  have st: "step (DelayElapsed k True) sys = Some ?s1"
    using Suc.prems by (simp add: loop_def)
  have "run (replicate n (DelayElapsed k True)) ?s1 =
       Some (if n = 0 then ?s1
             else ?s1\<lparr>workers := (workers ?s1)[k := Sleeping OFFLINE_RECHECK_DELAY]\<rparr>)"
    using Suc.prems by (intro Suc.IH [of ?s1 OFFLINE_RECHECK_DELAY]) simp_all
  then show ?case using st by simp
qed

text \<open>
  C6. An iteration of the loop that finds the network down asks for a delay of
  \<open>60 * 1000\<close> milliseconds and changes nothing else. Any number of such iterations
  in a row leave rows, queue, flag, listener calls and the calls of \<open>_processItem\<close> as
  they were, with the activation in that delay; the iteration that then finds the
  network up takes the id at the head of that same queue.
\<close>

theorem C6_offline_backoff:
  assumes "k < length (workers sys)" and "workers sys ! k = Sleeping ms"
  shows "loop True k sys = sys\<lparr>workers := (workers sys)[k := Sleeping (60 * 1000)]\<rparr> \<and>
         (\<exists>sys_n. run (replicate n (DelayElapsed k True)) sys = Some sys_n \<and>
            vars sys_n = vars sys \<and> started sys_n = started sys \<and>
            (\<exists>d. workers sys_n ! k = Sleeping d) \<and>
            (0 < n \<longrightarrow> workers sys_n ! k = Sleeping (60 * 1000)) \<and>
            (\<forall>i rest. queue (vars sys) = i # rest \<and> i \<noteq> 0 \<longrightarrow>
               (\<exists>sys'. step (DelayElapsed k False) sys_n = Some sys' \<and>
                   workers sys' ! k = AwaitItem i \<and> queue (vars sys') = rest \<and>
                   started sys' = started sys @ [i])))"
proof -
  let ?sn = "if n = 0 then sys
             else sys\<lparr>workers := (workers sys)[k := Sleeping OFFLINE_RECHECK_DELAY]\<rparr>"
  have r: "run (replicate n (DelayElapsed k True)) sys = Some ?sn"
    using assms by (rule offline_run)
  have k: "k < length (workers ?sn)" using assms(1) by simp
  have w: "\<exists>d. workers ?sn ! k = Sleeping d" using assms by simp
  have v: "vars ?sn = vars sys" "started ?sn = started sys" by simp_all
  have "\<exists>sys'. step (DelayElapsed k False) ?sn = Some sys' \<and>
                   workers sys' ! k = AwaitItem i \<and> queue (vars sys') = rest \<and>
                   started sys' = started sys @ [i]"
    if "queue (vars sys) = i # rest \<and> i \<noteq> 0" for i rest
  proof -
    from that v have q: "queue (vars ?sn) = i # rest" and i: "i \<noteq> 0" by simp_all
    from w obtain d where d: "workers ?sn ! k = Sleeping d" by blast
    have "step (DelayElapsed k False) ?sn = Some (loop False k ?sn)"
      using k d by simp
    then show ?thesis using loop_next [OF q i k] k v by simp
  qed
  moreover have "0 < n \<longrightarrow> workers ?sn ! k = Sleeping (60 * 1000)"
    using assms(1) by (simp add: OFFLINE_RECHECK_DELAY_def)
  moreover have "loop True k sys = sys\<lparr>workers := (workers sys)[k := Sleeping (60 * 1000)]\<rparr>"
    by (simp add: loop_def OFFLINE_RECHECK_DELAY_def)
  ultimately show ?thesis using r w v by blast
qed

lemma C6_state_run: "run C6_actions start = Some C6_state"
  by (simp add: C6_actions_def C6_state_def eval_defs OFFLINE_RECHECK_DELAY_def)

theorem C6_offline_backoff_witness:
  "run C6_actions start = Some C6_state \<and>
   run (replicate 3 (DelayElapsed 0 True)) C6_state = Some C6_state \<and>
   (\<exists>sys'. step (DelayElapsed 0 False) C6_state = Some sys' \<and>
      workers sys' = [AwaitItem 2] \<and> queue (vars sys') = [1] \<and> started sys' = [2])"
proof -
  have k: "0 < length (workers C6_state)" and w: "workers C6_state ! 0 = Sleeping 60000"
    by (simp_all add: C6_state_def)
  show ?thesis
    using C6_offline_backoff [OF k w, of 3]
    by (simp add: C6_state_run) (simp add: C6_state_def eval_defs OFFLINE_RECHECK_DELAY_def numeral_3_eq_3)
qed

lemma addItem_fresh: "iid item \<notin> set (map rid (rows s)) \<Longrightarrow> addItem item s = addItem_insert item s"
  by (simp add: addItem_def find_rid_None [symmetric] del: set_map)

lemma queue_fold_addItem_fresh:
  "distinct (map iid items) \<Longrightarrow> set (map iid items) \<inter> set (map rid (rows s)) = {} \<Longrightarrow>
     queue (fold addItem items s) = rev (map iid items) @ queue s"
proof (induction items arbitrary: s)
  case Nil
  then show ?case by simp
next
  case (Cons item items)
  have fresh: "iid item \<notin> set (map rid (rows s))" using Cons.prems(2) by simp
  have a: "addItem item s = addItem_insert item s" using fresh by (rule addItem_fresh)
  have "set (map iid items) \<inter> set (map rid (rows (addItem item s))) = {}"
    using Cons.prems by (auto simp: a rows_addItem_insert)
  then have "queue (fold addItem items (addItem item s)) =
      rev (map iid items) @ queue (addItem item s)"
    using Cons.prems(1) by (intro Cons.IH) simp
  then show ?case by (simp add: a queue_addItem_insert)
qed

text \<open>
  C1. The code takes ids from the end of the queue they were put on: \<open>_addItem\<close>
  puts an id at the front (\<open>unshift\<close>, line 138) and the loop takes the front
  (\<open>shift\<close>, line 207). When items with distinct ids are added to a fresh module
  and the loop runs with the network up, \<open>_processItem\<close> is called with the ids in
  the reverse of the order in which they were added: the newest first, not the oldest.
\<close>

theorem C1_newest_processed_first:
  assumes "distinct (map iid items)" and "list_all (\<lambda>item. 0 < iid item) items"
    and "length outs = length items"
  shows "\<exists>sys. run (RecognizeItems items # SchemaReady 0 False # map (\<lambda>out. ItemDone 0 out False) outs) start
             = Some sys \<and>
           started sys = rev (map iid items) \<and> queue (vars sys) = []"
proof -
  let ?s1 = "start\<lparr>vars := fold addItem items (vars start), workers := workers start @ [AwaitSchema]\<rparr>"
  have q: "queue (vars ?s1) = rev (map iid items)"
    using queue_fold_addItem_fresh [OF assms(1), of init] by (simp add: start_def init_def)
  have fl: "\<not> queueProcessing (vars ?s1)" by (simp add: start_def init_def)
  have w1: "workers ?s1 = [AwaitSchema]" "started ?s1 = []" by (simp_all add: start_def)
  have pos: "0 \<notin> set (rev (map iid items))"
    using assms(2) by (auto simp: list_all_iff)
  let ?s2 = "loop False 0 (?s1\<lparr>vars := (vars ?s1)\<lparr>queueProcessing := True\<rparr>\<rparr>)"
  have st1: "step (RecognizeItems items) start = Some ?s1" by simp
  have st2: "step (SchemaReady 0 False) ?s1 = Some ?s2"
    using fl w1 by simp
  show ?thesis
  proof (cases "rev (map iid items)")
    case Nil
    then have "outs = []" using assms(3) by simp
    moreover have "queue (vars (?s1\<lparr>vars := (vars ?s1)\<lparr>queueProcessing := True\<rparr>\<rparr>)) = []"
      using q Nil by simp
    note loop_empty [OF this, of 0]
    ultimately show ?thesis using st1 st2 Nil w1
      by (simp del: step.simps)
  next
    case (Cons n rest)
    let ?s15 = "?s1\<lparr>vars := (vars ?s1)\<lparr>queueProcessing := True\<rparr>\<rparr>"
    have q15: "queue (vars ?s15) = n # rest" using q Cons by simp
    have n: "n \<noteq> 0" using pos Cons by auto
    have k: "0 < length (workers ?s15)" using w1 by simp
    note l = loop_next [OF q15 n k]
    have "0 < length (workers ?s2)" and "workers ?s2 ! 0 = AwaitItem n"
      and "0 \<notin> set (queue (vars ?s2))" and "length outs = Suc (length (queue (vars ?s2)))"
      using l w1 pos Cons assms(3) 
      by (simp_all, metis length_Cons length_map length_rev)
    from drain [OF this] obtain sys where
      "run (map (\<lambda>out. ItemDone 0 out False) outs) ?s2 = Some sys"
      "started sys = started ?s2 @ queue (vars ?s2)" "queue (vars sys) = []"
      by blast
    then show ?thesis using st1 st2 l w1 Cons
      by (simp del: step.simps)
  qed
qed

theorem C1_newest_processed_first_witness:
  "\<exists>sys. run [RecognizeItems [itemA, itemB], SchemaReady 0 False,
              ItemDone 0 (Inr None) False, ItemDone 0 (Inr None) False] start = Some sys \<and>
     started sys = [2, 1] \<and> queue (vars sys) = []"
  using C1_newest_processed_first [of "[itemA, itemB]" "[Inr None, Inr None]"]
  by (simp add: itemA_def itemB_def del: step.simps run.simps)

end
